theory Spec2Isabelle
  imports Main "HOL-Library.List_Lexorder" "HOL-Library.Char_ord"
begin

section \<open>Data model: the backing stores of the feed application\<close>

text \<open>
  Identifiers are the strings the routes receive and store: user ids are TEXT columns
  and document fields, reel ids are UUIDs (here their canonical text, compared
  lexicographically as the clustering column compares them), timestamps are integers
  (milliseconds).
\<close>

type_synonym user_id = string
type_synonym reel_id = string
type_synonym timestamp = int

text \<open>Cassandra, table \<open>reels\<close>: \<open>reel_id UUID PRIMARY KEY, user_id, caption, media_url, created_at\<close>.\<close>

record reel_row =
  r_user_id :: user_id
  r_caption :: string
  r_media_url :: string
  r_created_at :: timestamp

text \<open>Cassandra, table \<open>user_reels\<close>: \<open>PRIMARY KEY (user_id, created_at, reel_id)\<close>.\<close>

record ur_row =
  ur_created_at :: timestamp
  ur_reel_id :: reel_id

text \<open>
  Cassandra, table \<open>timeline\<close>: \<open>PRIMARY KEY (user_id, created_at, reel_id)\<close>, with the
  regular column \<open>author_id\<close>.
\<close>

record tl_row =
  tl_created_at :: timestamp
  tl_reel_id :: reel_id
  tl_author_id :: user_id

text \<open>MongoDB documents of the collections \<open>users\<close>, \<open>follows\<close>, \<open>comments\<close> and \<open>likes\<close>.\<close>

record user_doc =
  u_id :: user_id
  u_username :: string
  u_fullname :: string
  u_avatar :: "string option"
  u_bio :: "string option"

record follow_doc =
  f_followerId :: user_id
  f_followedId :: user_id
  f_createdAt :: timestamp

record comment_doc =
  c_oid :: string
  c_reelId :: string
  c_userId :: user_id
  c_username :: string
  c_text :: string
  c_parentCommentId :: "string option"
  c_createdAt :: timestamp

record like_doc =
  l_reelId :: string
  l_userId :: user_id
  l_createdAt :: timestamp

text \<open>
  The whole system state. \<open>cassandra_connected\<close> is the flag \<open>connected\<close> of
  \<open>db/cassandra.js\<close> (\<open>getClient\<close> throws while it is false), \<open>mongo_connected\<close> says
  that \<open>db\<close> of \<open>db/mongo.js\<close> is set (\<open>getDb\<close> throws otherwise), \<open>neo4j_connected\<close>
  is what \<open>isNeo4jConnected()\<close> answers. A Cassandra table partitioned by \<open>user_id\<close> is
  a function from the partition key to the partition, the rows in clustering order.
  A Mongo collection is the list of its documents in natural order. The graph store
  holds \<open>User\<close> nodes (their ids) and \<open>FOLLOWS\<close> relationships (follower, followed).
  Every Redis value the routes write is a decimal integer string (\<open>'0'\<close>, \<open>'1'\<close>, the
  results of INCR and DECR), so a value is modelled by the integer it denotes;
  \<open>redis_expires\<close> holds, for a key stored with a time to live, the instant (in
  milliseconds, as \<open>Date.now()\<close>) at which Redis stops answering it. The 64-bit range
  of INCR is not modelled.
\<close>

record state =
  cassandra_connected :: bool
  reels :: "reel_id \<rightharpoonup> reel_row"
  user_reels :: "user_id \<Rightarrow> ur_row list"
  timeline :: "user_id \<Rightarrow> tl_row list"
  mongo_connected :: bool
  users :: "user_doc list"
  follows :: "follow_doc list"
  comments :: "comment_doc list"
  likes :: "like_doc list"
  neo4j_connected :: bool
  neo4j_users :: "user_id list"
  neo4j_follows :: "(user_id \<times> user_id) list"
  redis :: "string \<rightharpoonup> int"
  redis_expires :: "string \<rightharpoonup> timestamp"

text \<open>
  Faults of a single call that the handlers catch and survive: a failing timeline INSERT
  (caught per row), a failing write to the \<open>follows\<close> collection, a failing Cypher query.
\<close>

record faults =
  timeline_write_fails :: "user_id \<Rightarrow> tl_row \<Rightarrow> bool"
  follows_write_fails :: bool
  neo4j_query_fails :: bool

definition no_faults :: faults where
  "no_faults = \<lparr>timeline_write_fails = (\<lambda>_ _. False), follows_write_fails = False,
     neo4j_query_fails = False\<rparr>"

text \<open>A response is an HTTP error (400 or 500, with its \<open>error\<close> text) or the handler's payload.\<close>

datatype http_error = BadRequest string | ServerError string

text \<open>
  A request field is \<open>None\<close> when the request leaves it out. \<open>!field\<close> holds for a missing
  field and for the empty string.
\<close>

definition falsy :: "string option \<Rightarrow> bool" where
  "falsy v = (case v of None \<Rightarrow> True | Some s \<Rightarrow> s = [])"

definition initial_state :: state where
  "initial_state = \<lparr>cassandra_connected = True, reels = Map.empty, user_reels = (\<lambda>_. []),
     timeline = (\<lambda>_. []), mongo_connected = True, users = [], follows = [], comments = [],
     likes = [], neo4j_connected = True, neo4j_users = [], neo4j_follows = [],
     redis = Map.empty, redis_expires = Map.empty\<rparr>"

section \<open>Counter cache: the likes routes\<close>

text \<open>\<open>key = `likes:${reelId}`\<close> and \<open>userLikeKey = `like:${reelId}:${userId}`\<close>.\<close>

definition likes_key :: "string \<Rightarrow> string" where
  "likes_key reelId = ''likes:'' @ reelId"

definition user_like_key :: "string \<Rightarrow> string \<Rightarrow> string" where
  "user_like_key reelId userId = ''like:'' @ reelId @ '':'' @ userId"

text \<open>
  The Redis commands the routes use, at the instant \<open>now\<close> of the call. \<open>GET\<close> answers
  no value for a key whose expiry has passed (the clock is beyond it). \<open>SET\<close> stores
  the value with the expiry given by \<open>EX\<close>, or with none (a plain \<open>SET\<close> discards an
  earlier one). \<open>INCR\<close> and \<open>DECR\<close> start a missing or lapsed key at 0; a live key
  keeps its expiry, a lapsed one comes back without. \<open>DEL\<close> removes the key.
\<close>

definition redis_get :: "state \<Rightarrow> timestamp \<Rightarrow> string \<Rightarrow> int option" where
  "redis_get st now k =
     (case redis_expires st k of
        None \<Rightarrow> redis st k
      | Some t \<Rightarrow> if t < now then None else redis st k)"

definition redis_set :: "state \<Rightarrow> string \<Rightarrow> int \<Rightarrow> timestamp option \<Rightarrow> state" where
  "redis_set st k v ex =
     st\<lparr>redis := (redis st)(k \<mapsto> v), redis_expires := (redis_expires st)(k := ex)\<rparr>"

definition redis_del :: "state \<Rightarrow> string \<Rightarrow> state" where
  "redis_del st k =
     st\<lparr>redis := (redis st)(k := None), redis_expires := (redis_expires st)(k := None)\<rparr>"

text \<open>The counter a Redis key denotes: a key that answers no value reads 0.\<close>

definition counter_value :: "state \<Rightarrow> timestamp \<Rightarrow> string \<Rightarrow> int" where
  "counter_value st now k = (case redis_get st now k of None \<Rightarrow> 0 | Some v \<Rightarrow> v)"

definition redis_incrby :: "state \<Rightarrow> timestamp \<Rightarrow> string \<Rightarrow> int \<Rightarrow> state" where
  "redis_incrby st now k d =
     st\<lparr>redis := (redis st)(k \<mapsto> counter_value st now k + d),
        redis_expires := (if redis_get st now k = None then (redis_expires st)(k := None)
                          else redis_expires st)\<rparr>"

text \<open>\<open>EX: 86400 * 30\<close>: the lifetime of a per-user flag, 30 days, in milliseconds.\<close>

definition flag_ttl :: int where
  "flag_ttl = 86400 * 30 * 1000"

text \<open>
  The payloads of the likes routes: \<open>{message, liked}\<close> on the early returns,
  \<open>{likesCount, liked}\<close> otherwise.
\<close>

datatype like_response = LikeMessage string bool | LikeCount int bool

text \<open>
  \<open>POST /api/likes/:reelId\<close>. The insert into the \<open>likes\<close> collection is dispatched
  without being awaited; the model applies it. \<open>getDb()\<close> is called after the two Redis
  writes, so a missing Mongo connection answers 500 with the counter already incremented.
  The flag is stored with \<open>EX: 86400 * 30\<close>, so it answers for 30 days from the call.
\<close>

definition like :: "state \<Rightarrow> timestamp \<Rightarrow> string \<Rightarrow> string option \<Rightarrow> state \<times> (http_error + like_response)" where
  "like st now reelId userId =
     (case userId of
        None \<Rightarrow> (st, Inl (BadRequest ''userId is required''))
      | Some uid \<Rightarrow>
          if uid = [] then (st, Inl (BadRequest ''userId is required''))
          else if redis_get st now (user_like_key reelId uid) \<noteq> None
          then (st, Inr (LikeMessage ''Already liked'' True))
          else
            let newCount = counter_value st now (likes_key reelId) + 1;
                st1 = redis_incrby st now (likes_key reelId) 1;
                st2 = redis_set st1 (user_like_key reelId uid) 1 (Some (now + flag_ttl))
            in if \<not> mongo_connected st2 then (st2, Inl (ServerError ''Failed to like reel''))
               else (st2\<lparr>likes := likes st2 @
                        [\<lparr>l_reelId = reelId, l_userId = uid, l_createdAt = now\<rparr>]\<rparr>,
                     Inr (LikeCount newCount True)))"

text \<open>\<open>deleteOne({reelId, userId})\<close>: the first matching document goes.\<close>

fun delete_one :: "('a \<Rightarrow> bool) \<Rightarrow> 'a list \<Rightarrow> 'a list" where
  "delete_one p [] = []"
| "delete_one p (x # xs) = (if p x then xs else x # delete_one p xs)"

text \<open>
  \<open>DELETE /api/likes/:reelId\<close>. Only the response is clamped (\<open>Math.max(0, newCount)\<close>);
  the value DECR leaves in Redis is not.
\<close>

definition unlike :: "state \<Rightarrow> timestamp \<Rightarrow> string \<Rightarrow> string option \<Rightarrow> state \<times> (http_error + like_response)" where
  "unlike st now reelId userId =
     (case userId of
        None \<Rightarrow> (st, Inl (BadRequest ''userId is required''))
      | Some uid \<Rightarrow>
          if uid = [] then (st, Inl (BadRequest ''userId is required''))
          else if redis_get st now (user_like_key reelId uid) = None
          then (st, Inr (LikeMessage ''Not liked'' False))
          else
            let newCount = counter_value st now (likes_key reelId) - 1;
                st1 = redis_incrby st now (likes_key reelId) (- 1);
                st2 = redis_del st1 (user_like_key reelId uid)
            in if \<not> mongo_connected st2 then (st2, Inl (ServerError ''Failed to unlike reel''))
               else (st2\<lparr>likes := delete_one (\<lambda>d. l_reelId d = reelId \<and> l_userId d = uid)
                                    (likes st2)\<rparr>,
                     Inr (LikeCount (max 0 newCount) False)))"

text \<open>
  \<open>GET /api/likes/:reelId\<close>: the stored count as it is (a missing key reads 0), and
  whether the caller's flag is set. No store is written.
\<close>

definition get_likes :: "state \<Rightarrow> timestamp \<Rightarrow> string \<Rightarrow> string option \<Rightarrow> http_error + like_response" where
  "get_likes st now reelId userId =
     Inr (LikeCount (counter_value st now (likes_key reelId))
            (case userId of
               None \<Rightarrow> False
             | Some uid \<Rightarrow> uid \<noteq> [] \<and> redis_get st now (user_like_key reelId uid) \<noteq> None))"

text \<open>\<open>getCount\<close> of the specification: the \<open>likesCount\<close> the GET route answers.\<close>

definition getCount :: "state \<Rightarrow> timestamp \<Rightarrow> string \<Rightarrow> int" where
  "getCount st now reelId =
     (case get_likes st now reelId None of Inr (LikeCount n _) \<Rightarrow> n | _ \<Rightarrow> 0)"

section \<open>Cassandra partitions\<close>

text \<open>
  Both partitioned tables cluster their rows by \<open>(created_at, reel_id)\<close>
  \<open>WITH CLUSTERING ORDER BY (created_at DESC)\<close>: newest first, and rows of one timestamp
  by ascending reel id. \<open>cl_before a b\<close> says that a row with key \<open>a\<close> is stored (and
  read) before a row with key \<open>b\<close>.
\<close>

type_synonym cl_key = "timestamp \<times> reel_id"

definition cl_before :: "cl_key \<Rightarrow> cl_key \<Rightarrow> bool" where
  "cl_before a b = (fst b < fst a \<or> (fst a = fst b \<and> snd a < snd b))"

definition ur_key :: "ur_row \<Rightarrow> cl_key" where
  "ur_key r = (ur_created_at r, ur_reel_id r)"

definition tl_key :: "tl_row \<Rightarrow> cl_key" where
  "tl_key r = (tl_created_at r, tl_reel_id r)"

text \<open>
  \<open>INSERT INTO ... VALUES\<close> on a partition: the row goes to its place in clustering
  order; a row with the same primary key is replaced (an INSERT is an upsert, it never
  reports a duplicate).
\<close>

fun cl_upsert :: "('a \<Rightarrow> cl_key) \<Rightarrow> 'a \<Rightarrow> 'a list \<Rightarrow> 'a list" where
  "cl_upsert key e [] = [e]"
| "cl_upsert key e (x # xs) =
     (if cl_before (key e) (key x) then e # x # xs
      else if key e = key x then e # xs
      else x # cl_upsert key e xs)"

text \<open>The ordering invariant of a partition: strictly in clustering order.\<close>

definition cl_ordered :: "('a \<Rightarrow> cl_key) \<Rightarrow> 'a list \<Rightarrow> bool" where
  "cl_ordered key xs = sorted_wrt (\<lambda>a b. cl_before (key a) (key b)) xs"

definition timeline_ordered :: "state \<Rightarrow> bool" where
  "timeline_ordered st = (\<forall>u. cl_ordered tl_key (timeline st u))"

definition insert_timeline :: "state \<Rightarrow> user_id \<Rightarrow> tl_row \<Rightarrow> state" where
  "insert_timeline st u e = st\<lparr>timeline := (timeline st)(u := cl_upsert tl_key e (timeline st u))\<rparr>"

definition insert_user_reels :: "state \<Rightarrow> user_id \<Rightarrow> ur_row \<Rightarrow> state" where
  "insert_user_reels st u e =
     st\<lparr>user_reels := (user_reels st)(u := cl_upsert ur_key e (user_reels st u))\<rparr>"

text \<open>\<open>SELECT ... WHERE user_id = ? ORDER BY created_at DESC LIMIT ?\<close> (a positive limit).\<close>

definition select_timeline :: "state \<Rightarrow> user_id \<Rightarrow> nat \<Rightarrow> tl_row list" where
  "select_timeline st u n = take n (timeline st u)"

definition select_user_reels :: "state \<Rightarrow> user_id \<Rightarrow> nat \<Rightarrow> ur_row list" where
  "select_user_reels st u n = take n (user_reels st u)"

text \<open>A timeline INSERT inside \<open>try { ... } catch\<close>: a failing write is skipped.\<close>

definition try_insert_timeline :: "faults \<Rightarrow> state \<Rightarrow> user_id \<Rightarrow> tl_row \<Rightarrow> state" where
  "try_insert_timeline fl st u e =
     (if timeline_write_fails fl u e then st else insert_timeline st u e)"

section \<open>Timeline reader: \<open>GET /api/reels/feed\<close>\<close>

text \<open>
  The loop \<open>for (const row of userReelsResult.rows)\<close>: each row of an author's index is
  inserted into the owner's partition with \<open>author_id\<close> the author. (\<open>row.created_at\<close> is
  a key column, so \<open>row.created_at || new Date()\<close> is \<open>row.created_at\<close>.)
\<close>

fun backfill_rows :: "faults \<Rightarrow> user_id \<Rightarrow> user_id \<Rightarrow> state \<Rightarrow> ur_row list \<Rightarrow> state" where
  "backfill_rows fl owner author st [] = st"
| "backfill_rows fl owner author st (row # rows) =
     backfill_rows fl owner author
       (try_insert_timeline fl st owner
          \<lparr>tl_created_at = ur_created_at row, tl_reel_id = ur_reel_id row, tl_author_id = author\<rparr>)
       rows"

text \<open>The loop \<open>for (const followedUserId of followedUserIds)\<close>, each with \<open>LIMIT 20\<close>.\<close>

fun backfill_followed :: "faults \<Rightarrow> user_id \<Rightarrow> state \<Rightarrow> user_id list \<Rightarrow> state" where
  "backfill_followed fl owner st [] = st"
| "backfill_followed fl owner st (f # fs) =
     backfill_followed fl owner (backfill_rows fl owner f st (select_user_reels st f 20)) fs"

text \<open>
  A post reference \<open>{reelId, reelIdString, authorId, createdAt}\<close>; the reel id is a key
  column and never null, so \<open>.filter(r => r.reelId)\<close> keeps every row.
\<close>

record feed_ref =
  ref_reelId :: reel_id
  ref_authorId :: user_id
  ref_createdAt :: timestamp

definition ref_of_timeline :: "tl_row \<Rightarrow> feed_ref" where
  "ref_of_timeline row =
     \<lparr>ref_reelId = tl_reel_id row, ref_authorId = tl_author_id row,
      ref_createdAt = tl_created_at row\<rparr>"

definition ref_of_own :: "user_id \<Rightarrow> ur_row \<Rightarrow> feed_ref" where
  "ref_of_own userId row =
     \<lparr>ref_reelId = ur_reel_id row, ref_authorId = userId, ref_createdAt = ur_created_at row\<rparr>"

definition ref_key :: "feed_ref \<Rightarrow> cl_key" where
  "ref_key r = (ref_createdAt r, ref_reelId r)"

text \<open>The following set the feed route uses: the \<open>follows\<close> documents of the owner.\<close>

definition mongo_following :: "state \<Rightarrow> user_id \<Rightarrow> user_id list" where
  "mongo_following st userId =
     map f_followedId (filter (\<lambda>d. f_followerId d = userId) (follows st))"

definition mongo_followers :: "state \<Rightarrow> user_id \<Rightarrow> user_id list" where
  "mongo_followers st userId =
     map f_followerId (filter (\<lambda>d. f_followedId d = userId) (follows st))"

text \<open>Lines 40 to 129 of the feed route: the ordered post references, and the state after.\<close>

definition assemble :: "state \<Rightarrow> faults \<Rightarrow> user_id \<Rightarrow> nat \<Rightarrow> state \<times> feed_ref list" where
  "assemble st fl userId limit =
     (let timelineResult = select_timeline st userId limit in
      if timelineResult = [] then
        (let followedUserIds = mongo_following st userId in
         if followedUserIds \<noteq> [] then
           (let st' = backfill_followed fl userId st followedUserIds
            in (st', map ref_of_timeline (select_timeline st' userId limit)))
         else (st, map (ref_of_own userId) (select_user_reels st userId limit)))
      else (st, map ref_of_timeline timelineResult))"

section \<open>Feed enrichment join\<close>

record author_view =
  a_id :: user_id
  a_username :: string
  a_avatar :: "string option"

record comment_view =
  cv_id :: string
  cv_text :: string
  cv_author_id :: user_id
  cv_author_username :: string
  cv_createdAt :: timestamp

record feed_item =
  fi_id :: string
  fi_mediaUrl :: string
  fi_caption :: string
  fi_author :: author_view
  fi_likesCount :: int
  fi_comments :: "comment_view list"
  fi_createdAt :: timestamp

text \<open>\<open>x || 'unknown'\<close> on a string.\<close>

definition or_unknown :: "string \<Rightarrow> string" where
  "or_unknown s = (if s = [] then ''unknown'' else s)"

text \<open>\<open>x || null\<close> on an optional string.\<close>

definition or_null :: "string option \<Rightarrow> string option" where
  "or_null v = (if falsy v then None else v)"

text \<open>\<open>findOne({ id })\<close> on the \<open>users\<close> collection.\<close>

definition find_user :: "state \<Rightarrow> user_id \<Rightarrow> user_doc option" where
  "find_user st uid = find (\<lambda>u. u_id u = uid) (users st)"

definition author_of :: "state \<Rightarrow> user_id \<Rightarrow> author_view" where
  "author_of st authorId =
     (case find_user st authorId of
        Some mongoUser \<Rightarrow>
          \<lparr>a_id = u_id mongoUser, a_username = or_unknown (u_username mongoUser),
           a_avatar = or_null (u_avatar mongoUser)\<rparr>
      | None \<Rightarrow> \<lparr>a_id = authorId, a_username = ''unknown'', a_avatar = None\<rparr>)"

text \<open>
  \<open>find({ reelId, parentCommentId: null }).sort({ createdAt: -1 }).limit(3)\<close>, mapped to
  the comment views of the page.
\<close>

definition latest_comments :: "state \<Rightarrow> string \<Rightarrow> comment_view list" where
  "latest_comments st rid =
     map (\<lambda>c. \<lparr>cv_id = c_oid c, cv_text = c_text c, cv_author_id = c_userId c,
               cv_author_username = or_unknown (c_username c), cv_createdAt = c_createdAt c\<rparr>)
       (take 3 (sort_key (\<lambda>c. - c_createdAt c)
          (filter (\<lambda>c. c_reelId c = rid \<and> c_parentCommentId c = None) (comments st))))"

text \<open>
  The body of the mapped async function: \<open>null\<close> when the reel is not in \<open>reels\<close>.
  \<open>proxy\<close> is the rewriting of a direct MinIO URL into a proxy URL, which reads
  \<open>process.env\<close>; it is a parameter. \<open>now\<close> is the instant of the request, at which
  the counter is read from Redis.
\<close>

definition enrich_one ::
  "state \<Rightarrow> (string \<Rightarrow> string) \<Rightarrow> timestamp \<Rightarrow> feed_ref \<Rightarrow> feed_item option" where
  "enrich_one st proxy now r =
     (case reels st (ref_reelId r) of
        None \<Rightarrow> None
      | Some reel \<Rightarrow>
          Some \<lparr>fi_id = ref_reelId r,
                fi_mediaUrl = (if r_media_url reel = [] then [] else proxy (r_media_url reel)),
                fi_caption = r_caption reel,
                fi_author = author_of st (ref_authorId r),
                fi_likesCount = counter_value st now (likes_key (ref_reelId r)),
                fi_comments = latest_comments st (ref_reelId r),
                fi_createdAt = r_created_at reel\<rparr>)"

text \<open>
  \<open>Promise.all(refs.map(async ...))\<close>: one slot per input position, \<open>None\<close> while the
  lookup is pending. \<open>settle\<close> completes the lookup at position \<open>i\<close>; a slot is written
  once. The lookups complete in the order \<open>order\<close> (any list of positions), and every
  lookup not named there completes afterwards: the array is handed on when all slots
  are settled.
\<close>

definition settle :: "('a \<Rightarrow> 'b) \<Rightarrow> 'a list \<Rightarrow> 'b option list \<Rightarrow> nat \<Rightarrow> 'b option list" where
  "settle f xs slots i =
     (if i < length xs \<and> i < length slots \<and> slots ! i = None
      then slots[i := Some (f (xs ! i))] else slots)"

definition promise_all :: "('a \<Rightarrow> 'b) \<Rightarrow> 'a list \<Rightarrow> nat list \<Rightarrow> 'b option list" where
  "promise_all f xs order =
     foldl (settle f xs) (replicate (length xs) None) (order @ [0..<length xs])"

text \<open>\<open>enrichedReels.filter(Boolean)\<close>: the settled values that are not \<open>null\<close>.\<close>

fun non_null :: "'b option option \<Rightarrow> 'b option" where
  "non_null (Some (Some v)) = Some v"
| "non_null _ = None"

definition enrich ::
  "state \<Rightarrow> (string \<Rightarrow> string) \<Rightarrow> timestamp \<Rightarrow> nat list \<Rightarrow> feed_ref list \<Rightarrow> feed_item list" where
  "enrich st proxy now order refs =
     List.map_filter non_null (promise_all (enrich_one st proxy now) refs order)"

record feed_response =
  fr_reels :: "feed_item list"
  fr_page :: int
  fr_limit :: nat
  fr_message :: "string option"

text \<open>
  The whole route. \<open>getClient()\<close> and \<open>getDb()\<close> throw when their store is not
  connected, which the outer \<open>catch\<close> answers with 500.
\<close>

definition getFeed ::
  "state \<Rightarrow> faults \<Rightarrow> (string \<Rightarrow> string) \<Rightarrow> nat list \<Rightarrow> timestamp \<Rightarrow> string option \<Rightarrow> int
     \<Rightarrow> nat \<Rightarrow> state \<times> (http_error + feed_response)" where
  "getFeed st fl proxy order now userId page limit =
     (case userId of
        None \<Rightarrow> (st, Inl (BadRequest ''userId is required''))
      | Some uid \<Rightarrow>
          if uid = [] then (st, Inl (BadRequest ''userId is required''))
          else if \<not> cassandra_connected st \<or> \<not> mongo_connected st
          then (st, Inl (ServerError ''Failed to fetch feed''))
          else
            (case assemble st fl uid limit of
               (st', reelIds) \<Rightarrow>
                 if reelIds = []
                 then (st', Inr \<lparr>fr_reels = [], fr_page = page, fr_limit = limit,
                         fr_message =
                           Some ''No reels found. Follow some users or create your first reel!''\<rparr>)
                 else (st', Inr \<lparr>fr_reels = enrich st' proxy now order reelIds, fr_page = page,
                         fr_limit = limit, fr_message = None\<rparr>)))"

section \<open>Fan-out writer: \<open>POST /api/reels\<close>\<close>

text \<open>\<open>MATCH (u:User {id: $userId})<-[:FOLLOWS]-(follower:User) RETURN follower.id\<close>.\<close>

definition neo4j_followers :: "state \<Rightarrow> user_id \<Rightarrow> user_id list" where
  "neo4j_followers st userId = map fst (filter (\<lambda>e. snd e = userId) (neo4j_follows st))"

text \<open>
  The followers of the author as the route resolves them: from the graph store when it
  is connected and the query succeeds, and from the \<open>follows\<close> collection when that
  gave no follower.
\<close>

definition resolve_followers :: "state \<Rightarrow> faults \<Rightarrow> user_id \<Rightarrow> user_id list" where
  "resolve_followers st fl userId =
     (let followers =
            (if neo4j_connected st \<and> \<not> neo4j_query_fails fl then neo4j_followers st userId
             else [])
      in if followers = [] then mongo_followers st userId else followers)"

text \<open>The loop \<open>for (const followerId of followers)\<close> with its \<open>try/catch\<close>.\<close>

fun fan_out :: "faults \<Rightarrow> tl_row \<Rightarrow> state \<Rightarrow> user_id list \<Rightarrow> state" where
  "fan_out fl e st [] = st"
| "fan_out fl e st (followerId # followers) =
     fan_out fl e (try_insert_timeline fl st followerId e) followers"

text \<open>
  The route. \<open>reelId\<close> is the value of \<open>Uuid.random()\<close> and \<open>now\<close> of \<open>new Date()\<close>.
  \<open>getDb()\<close> is called after the two unguarded INSERTs, so a missing Mongo connection
  answers 500 with the post already stored.
\<close>

definition createPost ::
  "state \<Rightarrow> faults \<Rightarrow> reel_id \<Rightarrow> timestamp \<Rightarrow> string option \<Rightarrow> string option \<Rightarrow> string option
     \<Rightarrow> state \<times> (http_error + string)" where
  "createPost st fl reelId now userId caption mediaUrl =
     (case (userId, mediaUrl) of
        (Some uid, Some url) \<Rightarrow>
          if uid = [] \<or> url = []
          then (st, Inl (BadRequest ''userId and mediaUrl are required''))
          else if \<not> cassandra_connected st
          then (st, Inl (ServerError ''Failed to create reel''))
          else
            let st1 = st\<lparr>reels := (reels st)(reelId \<mapsto>
                          \<lparr>r_user_id = uid,
                           r_caption = (case caption of None \<Rightarrow> [] | Some c \<Rightarrow> c),
                           r_media_url = url, r_created_at = now\<rparr>)\<rparr>;
                st2 = insert_user_reels st1 uid \<lparr>ur_created_at = now, ur_reel_id = reelId\<rparr>
            in if \<not> mongo_connected st2
               then (st2, Inl (ServerError ''Failed to create reel''))
               else
                 let followers = resolve_followers st2 fl uid;
                     st3 = fan_out fl
                             \<lparr>tl_created_at = now, tl_reel_id = reelId, tl_author_id = uid\<rparr>
                             st2 followers;
                     st4 = redis_set st3 (likes_key reelId) 0 None
                 in (st4, Inr reelId)
      | _ \<Rightarrow> (st, Inl (BadRequest ''userId and mediaUrl are required'')))"

section \<open>Follow graph store: the users routes\<close>

text \<open>
  \<open>MATCH (follower:User {id: $followerId}), (followed:User {id: $userId})
  MERGE (follower)-[r:FOLLOWS]->(followed)\<close>: without both nodes nothing matches and
  nothing is created.
\<close>

definition neo4j_merge_follows :: "state \<Rightarrow> user_id \<Rightarrow> user_id \<Rightarrow> state" where
  "neo4j_merge_follows st followerId userId =
     (if followerId \<in> set (neo4j_users st) \<and> userId \<in> set (neo4j_users st)
         \<and> (followerId, userId) \<notin> set (neo4j_follows st)
      then st\<lparr>neo4j_follows := neo4j_follows st @ [(followerId, userId)]\<rparr>
      else st)"

text \<open>\<open>MATCH (follower)-[r:FOLLOWS]->(followed) DELETE r\<close>.\<close>

definition neo4j_delete_follows :: "state \<Rightarrow> user_id \<Rightarrow> user_id \<Rightarrow> state" where
  "neo4j_delete_follows st followerId userId =
     st\<lparr>neo4j_follows := filter (\<lambda>e. e \<noteq> (followerId, userId)) (neo4j_follows st)\<rparr>"

text \<open>
  \<open>updateOne({followerId, followedId}, {$set: {..., createdAt: new Date()}}, {upsert: true})\<close>:
  the first matching document is updated, or a new one is inserted.
\<close>

fun upsert_follow :: "user_id \<Rightarrow> user_id \<Rightarrow> timestamp \<Rightarrow> follow_doc list \<Rightarrow> follow_doc list" where
  "upsert_follow a b now [] = [\<lparr>f_followerId = a, f_followedId = b, f_createdAt = now\<rparr>]"
| "upsert_follow a b now (d # ds) =
     (if f_followerId d = a \<and> f_followedId d = b then d\<lparr>f_createdAt := now\<rparr> # ds
      else d # upsert_follow a b now ds)"

datatype follow_response = FollowResult string bool

text \<open>
  \<open>POST /api/users/:userId/follow\<close>. Both validations come before any store is touched.
  The graph write is best-effort; a failing write to \<open>follows\<close> answers 500; the backfill
  of the follower's timeline reads \<open>LIMIT 50\<close> of the followed user's index.
\<close>

definition follow ::
  "state \<Rightarrow> faults \<Rightarrow> timestamp \<Rightarrow> user_id \<Rightarrow> string option
     \<Rightarrow> state \<times> (http_error + follow_response)" where
  "follow st fl now userId followerId =
     (case followerId of
        None \<Rightarrow> (st, Inl (BadRequest ''followerId is required''))
      | Some fid \<Rightarrow>
          if fid = [] then (st, Inl (BadRequest ''followerId is required''))
          else if userId = fid then (st, Inl (BadRequest ''Cannot follow yourself''))
          else if \<not> cassandra_connected st \<or> \<not> mongo_connected st
          then (st, Inl (ServerError ''Failed to follow user''))
          else
            let st1 = (if neo4j_connected st \<and> \<not> neo4j_query_fails fl
                       then neo4j_merge_follows st fid userId else st)
            in if follows_write_fails fl
               then (st1, Inl (ServerError ''Failed to create follow relationship''))
               else
                 let st2 = st1\<lparr>follows := upsert_follow fid userId now (follows st1)\<rparr>;
                     st3 = backfill_rows fl fid userId st2 (select_user_reels st2 userId 50)
                 in (st3, Inr (FollowResult ''Followed successfully'' True)))"

text \<open>
  \<open>DELETE /api/users/:userId/follow\<close>. \<open>deleteOne\<close> removes the first matching document.
  No timeline is touched (the route's own note: the rows are left to age out).
\<close>

definition unfollow ::
  "state \<Rightarrow> faults \<Rightarrow> user_id \<Rightarrow> string option \<Rightarrow> state \<times> (http_error + follow_response)" where
  "unfollow st fl userId followerId =
     (case followerId of
        None \<Rightarrow> (st, Inl (BadRequest ''followerId is required''))
      | Some fid \<Rightarrow>
          if fid = [] then (st, Inl (BadRequest ''followerId is required''))
          else if \<not> mongo_connected st
          then (st, Inl (ServerError ''Failed to unfollow user''))
          else
            let st1 = (if neo4j_connected st \<and> \<not> neo4j_query_fails fl
                       then neo4j_delete_follows st fid userId else st)
            in if follows_write_fails fl
               then (st1, Inl (ServerError ''Failed to remove follow relationship''))
               else
                 (st1\<lparr>follows := delete_one
                         (\<lambda>d. f_followerId d = fid \<and> f_followedId d = userId) (follows st1)\<rparr>,
                  Inr (FollowResult ''Unfollowed successfully'' False)))"

text \<open>
  \<open>GET /api/users/:userId/followers\<close> and \<open>.../following\<close>. Both read the \<open>follows\<close>
  collection and then the profiles \<open>find({ id: { $in: ids } })\<close>; the variable \<open>neo4j\<close>
  is assigned and never used.
\<close>

record user_view =
  v_id :: user_id
  v_username :: string

definition users_in :: "state \<Rightarrow> user_id list \<Rightarrow> user_view list" where
  "users_in st ids =
     (if ids \<noteq> []
      then map (\<lambda>u. \<lparr>v_id = u_id u, v_username = or_unknown (u_username u)\<rparr>)
             (filter (\<lambda>u. u_id u \<in> set ids) (users st))
      else [])"

definition followers :: "state \<Rightarrow> user_id \<Rightarrow> http_error + user_view list" where
  "followers st userId =
     (if \<not> mongo_connected st then Inl (ServerError ''Failed to fetch followers'')
      else Inr (users_in st (mongo_followers st userId)))"

definition following :: "state \<Rightarrow> user_id \<Rightarrow> http_error + user_view list" where
  "following st userId =
     (if \<not> mongo_connected st then Inl (ServerError ''Failed to fetch following'')
      else Inr (users_in st (mongo_following st userId)))"

section \<open>Friend suggestions: \<open>GET /api/users/:userId/suggestions\<close>\<close>

text \<open>
  A counter per id, as an association list in insertion order; \<open>bump\<close> adds one to the
  count of an id, starting a new id at 1.
\<close>

fun bump :: "string \<Rightarrow> (string \<times> nat) list \<Rightarrow> (string \<times> nat) list" where
  "bump k [] = [(k, 1)]"
| "bump k ((k', c) # kvs) = (if k = k' then (k', c + 1) # kvs else (k', c) # bump k kvs)"

text \<open>
  \<open>suggestionCounts\<close> is a plain object (\<open>{}\<close>), which inherits the properties of
  \<open>Object.prototype\<close>; its own properties are the association list.
  \<open>object_bump\<close> is \<open>counts[id] = (counts[id] || 0) + 1\<close>:
  \<^item> for the id \<open>__proto__\<close> the read gives \<open>Object.prototype\<close>, the sum is a string, and
    the inherited setter ignores a value that is not an object: no own property is
    created and the object is unchanged;
  \<^item> for an id that names a function of \<open>Object.prototype\<close> the read gives that
    function and the own property created holds a string, on which the comparator of
    the later sort yields \<open>NaN\<close>; the order of the result is then not determined by the
    code, and the model gives no value (\<open>None\<close>);
  \<^item> for every other id the own property is read (a missing one as 0) and incremented.
\<close>

definition inherited_function_keys :: "string list" where
  "inherited_function_keys =
     [''constructor'', ''hasOwnProperty'', ''isPrototypeOf'', ''propertyIsEnumerable'',
      ''toLocaleString'', ''toString'', ''valueOf'', ''__defineGetter__'',
      ''__defineSetter__'', ''__lookupGetter__'', ''__lookupSetter__'']"

definition object_bump :: "string \<Rightarrow> (string \<times> nat) list \<Rightarrow> (string \<times> nat) list option" where
  "object_bump k counts =
     (if k = ''__proto__'' then Some counts
      else if k \<in> set inherited_function_keys then None
      else Some (bump k counts))"

text \<open>
  \<open>Object.entries\<close> lists the keys that are array indices first (canonical decimal
  numerals below \<open>2^32 - 1\<close>), in ascending numeric order, and then the other keys in
  insertion order.
\<close>

definition is_digit :: "char \<Rightarrow> bool" where
  "is_digit c = (c \<in> set ''0123456789'')"

definition decimal_value :: "string \<Rightarrow> nat" where
  "decimal_value s = foldl (\<lambda>n c. 10 * n + (of_char c - 48)) 0 s"

definition is_array_index :: "string \<Rightarrow> bool" where
  "is_array_index s =
     (case s of
        [] \<Rightarrow> False
      | c # cs \<Rightarrow> list_all is_digit s \<and> (c \<noteq> CHR ''0'' \<or> cs = [])
                  \<and> decimal_value s < 4294967295)"

definition object_entries :: "(string \<times> 'v) list \<Rightarrow> (string \<times> 'v) list" where
  "object_entries kvs =
     sort_key (\<lambda>kv. decimal_value (fst kv)) (filter (\<lambda>kv. is_array_index (fst kv)) kvs)
     @ filter (\<lambda>kv. \<not> is_array_index (fst kv)) kvs"

text \<open>\<open>.sort((a, b) => b[1] - a[1])\<close>: descending by count, stable.\<close>

definition sort_by_count_desc :: "(string \<times> nat) list \<Rightarrow> (string \<times> nat) list" where
  "sort_by_count_desc kvs = sort_key (\<lambda>kv. - int (snd kv)) kvs"

text \<open>\<open>xs.slice(0, n)\<close>; a negative \<open>n\<close> counts from the end.\<close>

definition js_slice0 :: "'a list \<Rightarrow> int \<Rightarrow> 'a list" where
  "js_slice0 xs n = (if n < 0 then take (nat (int (length xs) + n)) xs else take (nat n) xs)"

text \<open>The \<open>forEach\<close> over \<open>friendsFollows\<close> that fills \<open>suggestionCounts\<close>.\<close>

fun count_suggestions ::
  "user_id \<Rightarrow> user_id list \<Rightarrow> (string \<times> nat) list \<Rightarrow> follow_doc list
     \<Rightarrow> (string \<times> nat) list option" where
  "count_suggestions userId followingIds counts [] = Some counts"
| "count_suggestions userId followingIds counts (d # ds) =
     (if f_followedId d \<noteq> userId \<and> f_followedId d \<notin> set followingIds
      then (case object_bump (f_followedId d) counts of
              None \<Rightarrow> None
            | Some counts' \<Rightarrow> count_suggestions userId followingIds counts' ds)
      else count_suggestions userId followingIds counts ds)"

text \<open>
  The fallback on the \<open>follows\<close> collection, up to \<open>sortedSuggestions\<close>: the pairs
  (suggested id, count of mutual connections).
\<close>

definition friends_follows :: "state \<Rightarrow> user_id \<Rightarrow> follow_doc list" where
  "friends_follows st userId =
     filter (\<lambda>d. f_followerId d \<in> set (mongo_following st userId)) (follows st)"

definition mongo_ranked :: "state \<Rightarrow> user_id \<Rightarrow> int \<Rightarrow> (user_id \<times> nat) list option" where
  "mongo_ranked st userId limit =
     (let followingIds = mongo_following st userId in
      if followingIds \<noteq> [] then
        map_option
          (\<lambda>counts. js_slice0 (sort_by_count_desc (object_entries counts)) limit)
          (count_suggestions userId followingIds [] (friends_follows st userId))
      else Some [])"

text \<open>
  The Cypher query on the graph store: the paths me -> friend -> suggestion with the
  suggestion neither followed by me nor myself, counted per suggestion, ordered by the
  count descending (the order among equal counts is the store's; first found first
  here), \<open>LIMIT $limit\<close>. A negative limit is an error of the query, which the route
  catches.
\<close>

definition neo4j_ranked :: "state \<Rightarrow> user_id \<Rightarrow> (user_id \<times> nat) list" where
  "neo4j_ranked st userId =
     sort_by_count_desc
       (foldl (\<lambda>counts s. bump s counts) []
          (concat (map (\<lambda>e1. map snd (filter (\<lambda>e2. fst e2 = snd e1 \<and> snd e2 \<noteq> userId
                                          \<and> (userId, snd e2) \<notin> set (neo4j_follows st))
                                   (neo4j_follows st)))
                    (filter (\<lambda>e1. fst e1 = userId) (neo4j_follows st)))))"

text \<open>
  The last step collects the profiles of the suggested ids in \<open>userMap\<close>, another plain
  object (the last document of an id wins), spreads the profile found for each id and
  adds \<open>mutualConnections\<close>; without a profile only the count is left (an inherited
  property spreads to nothing). A profile document with the id \<open>__proto__\<close> among the
  suggested ids would become the prototype of \<open>userMap\<close>; the model gives no value for
  that case.
\<close>

record profile_view =
  p_id :: user_id
  p_username :: string
  p_avatar :: "string option"
  p_bio :: "string option"
  p_fullname :: string

record suggestion_view =
  s_profile :: "profile_view option"
  s_mutualConnections :: nat

definition profile_of :: "state \<Rightarrow> user_id \<Rightarrow> profile_view option" where
  "profile_of st uid =
     map_option
       (\<lambda>u. \<lparr>p_id = u_id u, p_username = or_unknown (u_username u), p_avatar = u_avatar u,
             p_bio = u_bio u,
             p_fullname = (if u_fullname u = [] then u_username u else u_fullname u)\<rparr>)
       (find (\<lambda>u. u_id u = uid) (rev (users st)))"

definition suggestion_of :: "state \<Rightarrow> user_id \<times> nat \<Rightarrow> suggestion_view" where
  "suggestion_of st s = \<lparr>s_profile = profile_of st (fst s), s_mutualConnections = snd s\<rparr>"

text \<open>
  The route: the graph store first when it is connected; the fallback when it is not,
  when its query fails, or when it returned nothing.
\<close>

definition suggestions ::
  "state \<Rightarrow> faults \<Rightarrow> user_id \<Rightarrow> int \<Rightarrow> (http_error + suggestion_view list) option" where
  "suggestions st fl userId limit =
     (if \<not> mongo_connected st then Some (Inl (ServerError ''Failed to fetch suggestions''))
      else
        let fromGraph =
              (if neo4j_connected st \<and> \<not> neo4j_query_fails fl \<and> 0 \<le> limit
               then take (nat limit) (neo4j_ranked st userId) else []);
            ranked = (if fromGraph = [] then mongo_ranked st userId limit else Some fromGraph)
        in case ranked of
             None \<Rightarrow> None
           | Some found \<Rightarrow>
               if ''__proto__'' \<in> set (map fst found) \<and> ''__proto__'' \<in> set (map u_id (users st))
               then None
               else Some (Inr (map (suggestion_of st) found)))"
section \<open>Auxiliary notions for the statements\<close>

text \<open>
  \<open>from_index rows author e\<close>: the timeline row \<open>e\<close> is a row of \<open>rows\<close> (an author's
  index), tagged with that author.
\<close>

definition from_index :: "ur_row list \<Rightarrow> user_id \<Rightarrow> tl_row \<Rightarrow> bool" where
  "from_index rows author e \<longleftrightarrow>
     tl_author_id e = author
     \<and> \<lparr>ur_created_at = tl_created_at e, ur_reel_id = tl_reel_id e\<rparr> \<in> set rows"

text \<open>
  The slots of a \<open>Promise.all\<close> in flight: one per input, each pending or holding the
  value of its own position.
\<close>

definition slots_ok :: "('a \<Rightarrow> 'b) \<Rightarrow> 'a list \<Rightarrow> 'b option list \<Rightarrow> bool" where
  "slots_ok f xs slots \<longleftrightarrow>
     length slots = length xs
     \<and> (\<forall>i<length xs. slots ! i = None \<or> slots ! i = Some (f (xs ! i)))"

text \<open>
  The scenario of the specification: \<open>u1\<close> follows \<open>u2\<close>, who posted \<open>r1\<close>, \<open>r2\<close>, \<open>r3\<close>
  at times 1, 2, 3, and \<open>u3\<close>, who posted nothing; no timeline has been written yet and
  the graph store holds no relationship.
\<close>

definition scenario :: state where
  "scenario = initial_state
     \<lparr>reels :=
        [''r1'' \<mapsto> \<lparr>r_user_id = ''u2'', r_caption = ''first'', r_media_url = ''m1'', r_created_at = 1\<rparr>,
         ''r2'' \<mapsto> \<lparr>r_user_id = ''u2'', r_caption = ''second'', r_media_url = ''m2'', r_created_at = 2\<rparr>,
         ''r3'' \<mapsto> \<lparr>r_user_id = ''u2'', r_caption = ''third'', r_media_url = ''m3'', r_created_at = 3\<rparr>],
      user_reels :=
        (\<lambda>_. [])(''u2'' := [\<lparr>ur_created_at = 3, ur_reel_id = ''r3''\<rparr>,
                            \<lparr>ur_created_at = 2, ur_reel_id = ''r2''\<rparr>,
                            \<lparr>ur_created_at = 1, ur_reel_id = ''r1''\<rparr>]),
      users :=
        [\<lparr>u_id = ''u1'', u_username = ''ann'', u_fullname = ''Ann'', u_avatar = None, u_bio = None\<rparr>,
         \<lparr>u_id = ''u2'', u_username = ''bob'', u_fullname = ''Bob'', u_avatar = None, u_bio = None\<rparr>,
         \<lparr>u_id = ''u3'', u_username = ''cy'', u_fullname = ''Cy'', u_avatar = None, u_bio = None\<rparr>],
      follows :=
        [\<lparr>f_followerId = ''u1'', f_followedId = ''u2'', f_createdAt = 0\<rparr>,
         \<lparr>f_followerId = ''u1'', f_followedId = ''u3'', f_createdAt = 0\<rparr>]\<rparr>"

text \<open>The initial state after the user \<open>a\<close> liked the post \<open>p\<close>.\<close>

definition liked_state :: state where
  "liked_state = fst (like initial_state 5 ''p'' (Some ''a''))"

text \<open>The edge a \<open>follows\<close> document stands for.\<close>

definition edge_of :: "follow_doc \<Rightarrow> user_id \<times> user_id" where
  "edge_of d = (f_followerId d, f_followedId d)"

text \<open>
  The specification's wording of \<open>followers\<close> and \<open>following\<close>, to be compared with the
  routes: prefer the accelerated backend when it is available, otherwise compute from
  the durable replica.
\<close>

definition followers_spec :: "state \<Rightarrow> user_id \<Rightarrow> user_id list" where
  "followers_spec st userId =
     (if neo4j_connected st then neo4j_followers st userId else mongo_followers st userId)"

definition following_spec :: "state \<Rightarrow> user_id \<Rightarrow> user_id list" where
  "following_spec st userId =
     (if neo4j_connected st then map snd (filter (\<lambda>e. fst e = userId) (neo4j_follows st))
      else mongo_following st userId)"

text \<open>The ids a followers or following response lists.\<close>

definition listed_ids :: "http_error + user_view list \<Rightarrow> user_id list" where
  "listed_ids r = (case r of Inl _ \<Rightarrow> [] | Inr vs \<Rightarrow> map v_id vs)"

text \<open>
  A state the routes reach in which the two graph backends differ: \<open>u1\<close> and \<open>u2\<close> have
  a node in the graph store, \<open>u3\<close> has none; \<open>u1\<close> and then \<open>u3\<close> follow \<open>u2\<close>. The
  second MERGE matches nothing, so only the replica holds the edge of \<open>u3\<close>.
\<close>

definition diverged :: state where
  "diverged =
     fst (follow (fst (follow (scenario\<lparr>follows := [], neo4j_users := [''u1'', ''u2'']\<rparr>)
                         no_faults 1 ''u2'' (Some ''u1'')))
            no_faults 2 ''u2'' (Some ''u3''))"

text \<open>
  A reached state in which the backends differ, all of them connected: the three users
  register, \<open>u3\<close> without a node in the graph store (signup creates the node only
  while the graph store is connected, and survives a failing MERGE); then \<open>u1\<close> and
  \<open>u3\<close> follow \<open>u2\<close>, who has not posted yet.
\<close>

definition unmatched_state :: state where
  "unmatched_state =
     fst (follow
       (fst (follow
          (initial_state\<lparr>users := users scenario, neo4j_users := [''u1'', ''u2''], comments := []\<rparr>)
          no_faults 1 ''u2'' (Some ''u1'')))
       no_faults 2 ''u2'' (Some ''u3''))"

text \<open>The scenario with every user in the graph store, after \<open>u1\<close> followed \<open>u2\<close>.\<close>

definition followed_state :: state where
  "followed_state =
     fst (follow (scenario\<lparr>follows := [], neo4j_users := [''u1'', ''u2'', ''u3'']\<rparr>)
            no_faults 4 ''u2'' (Some ''u1''))"

text \<open>The same after \<open>u3\<close> followed \<open>u2\<close> as well.\<close>

definition fanout_state :: state where
  "fanout_state = fst (follow followed_state no_faults 5 ''u2'' (Some ''u3''))"

text \<open>The count an association list holds for a key (0 when the key is absent).\<close>

definition count_in :: "(string \<times> nat) list \<Rightarrow> string \<Rightarrow> nat" where
  "count_in kvs k = (case map_of kvs k of None \<Rightarrow> 0 | Some c \<Rightarrow> c)"

text \<open>The fallback's ranked pairs before the truncation.\<close>

definition all_counts :: "state \<Rightarrow> user_id \<Rightarrow> (string \<times> nat) list option" where
  "all_counts st userId =
     map_option (\<lambda>counts. sort_by_count_desc (object_entries counts))
       (count_suggestions userId (mongo_following st userId) [] (friends_follows st userId))"

text \<open>
  The aggregation in the specification's words: the followed set \<open>F\<close> of the caller,
  the edges whose source is in \<open>F\<close>, the number of those edges per target other than
  the caller and the members of \<open>F\<close>, ranked by that number descending, truncated to
  \<open>limit\<close>.
\<close>

definition suggest_spec :: "state \<Rightarrow> user_id \<Rightarrow> nat \<Rightarrow> (user_id \<times> nat) list" where
  "suggest_spec st userId limit =
     (let F = mongo_following st userId;
          E = filter (\<lambda>d. f_followerId d \<in> set F) (follows st);
          targets = remdups (filter (\<lambda>t. t \<noteq> userId \<and> t \<notin> set F) (map f_followedId E))
      in take limit
           (sort_key (\<lambda>kv. - int (snd kv))
              (map (\<lambda>t. (t, length (filter (\<lambda>d. f_followedId d = t) E))) targets)))"

text \<open>
  A state the follow route reaches with the graph store not connected: \<open>u1\<close> follows
  \<open>u2\<close>, and \<open>u2\<close> follows the users with the ids \<open>__proto__\<close> and \<open>x\<close>.
\<close>

definition proto_state :: state where
  "proto_state =
     fst (follow
       (fst (follow
          (fst (follow (initial_state\<lparr>neo4j_connected := False\<rparr>)
                  no_faults 1 ''u2'' (Some ''u1'')))
          no_faults 2 ''__proto__'' (Some ''u2'')))
       no_faults 3 ''x'' (Some ''u2''))"

text \<open>
  A state without the graph store: \<open>u1\<close> follows \<open>u2\<close> and \<open>u3\<close>; \<open>u2\<close> follows \<open>u5\<close>,
  \<open>u4\<close>, \<open>u1\<close>; \<open>u3\<close> follows \<open>u4\<close>, \<open>u2\<close> and the user with id \<open>7\<close>; only \<open>u4\<close> has a
  profile.
\<close>

definition friends_state :: state where
  "friends_state = initial_state
     \<lparr>neo4j_connected := False,
      users :=
        [\<lparr>u_id = ''u4'', u_username = ''dee'', u_fullname = [], u_avatar = None, u_bio = None\<rparr>],
      follows :=
        [\<lparr>f_followerId = ''u1'', f_followedId = ''u2'', f_createdAt = 1\<rparr>,
         \<lparr>f_followerId = ''u1'', f_followedId = ''u3'', f_createdAt = 2\<rparr>,
         \<lparr>f_followerId = ''u2'', f_followedId = ''u5'', f_createdAt = 3\<rparr>,
         \<lparr>f_followerId = ''u2'', f_followedId = ''u4'', f_createdAt = 4\<rparr>,
         \<lparr>f_followerId = ''u2'', f_followedId = ''u1'', f_createdAt = 5\<rparr>,
         \<lparr>f_followerId = ''u3'', f_followedId = ''u4'', f_createdAt = 6\<rparr>,
         \<lparr>f_followerId = ''u3'', f_followedId = ''u2'', f_createdAt = 7\<rparr>,
         \<lparr>f_followerId = ''u3'', f_followedId = ''7'', f_createdAt = 8\<rparr>,
         \<lparr>f_followerId = ''u9'', f_followedId = ''u8'', f_createdAt = 9\<rparr>]\<rparr>"

text \<open>
  The states the application reaches from the initial state: by the modelled routes,
  with any arguments and any faults, by the profile and comment routes (which write
  \<open>users\<close>, the graph store's nodes and \<open>comments\<close> only), and by stores connecting or
  disconnecting.
\<close>

inductive reachable :: "state \<Rightarrow> bool" where
  reachable_initial: "reachable initial_state"
| reachable_createPost:
    "reachable st \<Longrightarrow> reachable (fst (createPost st fl reelId now userId caption mediaUrl))"
| reachable_follow:
    "reachable st \<Longrightarrow> reachable (fst (follow st fl now userId followerId))"
| reachable_unfollow:
    "reachable st \<Longrightarrow> reachable (fst (unfollow st fl userId followerId))"
| reachable_getFeed:
    "reachable st \<Longrightarrow> reachable (fst (getFeed st fl proxy order now userId page limit))"
| reachable_like:
    "reachable st \<Longrightarrow> reachable (fst (like st now reelId userId))"
| reachable_unlike:
    "reachable st \<Longrightarrow> reachable (fst (unlike st now reelId userId))"
| reachable_profiles:
    "reachable st \<Longrightarrow> reachable (st\<lparr>users := us, neo4j_users := ns, comments := cs\<rparr>)"
| reachable_connections:
    "reachable st \<Longrightarrow>
     reachable (st\<lparr>cassandra_connected := c, mongo_connected := m, neo4j_connected := n\<rparr>)"

text \<open>
  A reached state: the three users register, \<open>u1\<close> follows \<open>u2\<close>, then \<open>u2\<close> posts \<open>r1\<close>
  at time 1 and \<open>r0\<close> at time 1 as well.
\<close>

definition posted_state :: state where
  "posted_state =
     fst (createPost
       (fst (createPost
          (fst (follow
             (initial_state\<lparr>users := users scenario, neo4j_users := [''u1'', ''u2'', ''u3''],
                comments := []\<rparr>)
             no_faults 0 ''u2'' (Some ''u1'')))
          no_faults ''r1'' 1 (Some ''u2'') None (Some ''m1'')))
       no_faults ''r0'' 1 (Some ''u2'') None (Some ''m0''))"

section \<open>Properties of the counter cache\<close>

lemma likes_key_not_flag: "likes_key r \<noteq> user_like_key r' u"
  by (simp add: likes_key_def user_like_key_def)

lemma getCount_counter: "getCount st now reelId = counter_value st now (likes_key reelId)"
  by (simp add: getCount_def get_likes_def)

lemmas redis_defs = redis_get_def redis_set_def redis_del_def redis_incrby_def counter_value_def

lemma like_flag_absent:
  assumes "userId \<noteq> []" "redis_get st now (user_like_key reelId userId) = None"
  shows "redis_get (fst (like st now reelId (Some userId))) now' (user_like_key reelId userId)
           = (if now' \<le> now + flag_ttl then Some 1 else None)"
    and "getCount (fst (like st now reelId (Some userId))) now reelId = getCount st now reelId + 1"
    and "snd (like st now reelId (Some userId)) =
           (if mongo_connected st then Inr (LikeCount (getCount st now reelId + 1) True)
            else Inl (ServerError ''Failed to like reel''))"
  using assms
  by (auto simp: like_def Let_def getCount_counter redis_defs likes_key_not_flag
        likes_key_not_flag[symmetric] split: option.splits)

lemma like_flag_present:
  assumes "userId \<noteq> []" "redis_get st now (user_like_key reelId userId) \<noteq> None"
  shows "like st now reelId (Some userId) = (st, Inr (LikeMessage ''Already liked'' True))"
  using assms by (simp add: like_def)

text \<open>
  Claim C4, as the code has it. For every post and every actor (a non-empty user id):
  when the per-(post, actor) flag is absent or has expired, \<open>like\<close> sets the flag with a
  lifetime of 30 days and increments the counter by one, answering the new count when
  Mongo is connected and 500 when it is not (the Redis writes already done); when the
  flag is present and not expired, \<open>like\<close> changes no store and answers the message
  \<open>Already liked\<close>, which carries no count. Hence a second like by the same actor on
  the same post at most 30 days after the first changes nothing, and the two likes
  raise the count by exactly one; a like more than 30 days after the first finds the
  flag expired and increments the counter again.
\<close>

theorem like_idempotent_per_actor:
  assumes "userId \<noteq> []"
  shows "(if redis_get st now (user_like_key reelId userId) = None
          then redis_get (fst (like st now reelId (Some userId))) now' (user_like_key reelId userId)
                 = (if now' \<le> now + flag_ttl then Some 1 else None)
             \<and> getCount (fst (like st now reelId (Some userId))) now reelId = getCount st now reelId + 1
             \<and> snd (like st now reelId (Some userId)) =
                 (if mongo_connected st then Inr (LikeCount (getCount st now reelId + 1) True)
                  else Inl (ServerError ''Failed to like reel''))
          else like st now reelId (Some userId) = (st, Inr (LikeMessage ''Already liked'' True)))
       \<and> (redis_get st now (user_like_key reelId userId) = None \<and> now' \<le> now + flag_ttl \<longrightarrow>
            like (fst (like st now reelId (Some userId))) now' reelId (Some userId) =
              (fst (like st now reelId (Some userId)), Inr (LikeMessage ''Already liked'' True))
          \<and> getCount (fst (like (fst (like st now reelId (Some userId))) now' reelId (Some userId)))
              now reelId = getCount st now reelId + 1)
       \<and> (redis_get st now (user_like_key reelId userId) = None \<and> now + flag_ttl < now' \<longrightarrow>
            getCount (fst (like (fst (like st now reelId (Some userId))) now' reelId (Some userId)))
              now' reelId
            = getCount (fst (like st now reelId (Some userId))) now' reelId + 1)"
proof -
  let ?flag = "user_like_key reelId userId"
  let ?st1 = "fst (like st now reelId (Some userId))"
  have a: "redis_get st now ?flag = None \<Longrightarrow>
      redis_get ?st1 now' ?flag = (if now' \<le> now + flag_ttl then Some 1 else None)
    \<and> getCount ?st1 now reelId = getCount st now reelId + 1
    \<and> snd (like st now reelId (Some userId)) =
         (if mongo_connected st then Inr (LikeCount (getCount st now reelId + 1) True)
          else Inl (ServerError ''Failed to like reel''))"
    using like_flag_absent [OF assms] by simp
  have b: "redis_get st now ?flag \<noteq> None \<Longrightarrow>
      like st now reelId (Some userId) = (st, Inr (LikeMessage ''Already liked'' True))"
    using like_flag_present [OF assms] by simp
  have c: "like ?st1 now' reelId (Some userId) = (?st1, Inr (LikeMessage ''Already liked'' True))
         \<and> getCount (fst (like ?st1 now' reelId (Some userId))) now reelId = getCount st now reelId + 1"
    if "redis_get st now ?flag = None" "now' \<le> now + flag_ttl"
  proof -
    from a that have "redis_get ?st1 now' ?flag \<noteq> None" by simp
    then have "like ?st1 now' reelId (Some userId) = (?st1, Inr (LikeMessage ''Already liked'' True))"
      by (rule like_flag_present [OF assms])
    with a that(1) show ?thesis by simp
  qed
  have d: "getCount (fst (like ?st1 now' reelId (Some userId))) now' reelId
             = getCount ?st1 now' reelId + 1"
    if "redis_get st now ?flag = None" "now + flag_ttl < now'"
  proof -
    from a that have "redis_get ?st1 now' ?flag = None" by simp
    then show ?thesis by (rule like_flag_absent(2) [OF assms])
  qed
  from a b c d show ?thesis by auto
qed

text \<open>
  Witness for C4: on the initial state the actor \<open>a\<close> has no flag on post \<open>p\<close>; the
  count is 0, 1 after a like at time 5 and still 1 after a second like at time 6; a
  second like more than 30 days after the first raises it to 2.
\<close>

theorem like_idempotent_per_actor_witness:
  "''a'' \<noteq> [] \<and> redis_get initial_state 5 (user_like_key ''p'' ''a'') = None
   \<and> (6::int) \<le> 5 + flag_ttl \<and> 5 + flag_ttl < 6 + flag_ttl
   \<and> getCount initial_state 5 ''p'' = 0
   \<and> getCount (fst (like initial_state 5 ''p'' (Some ''a''))) 5 ''p'' = 1
   \<and> like (fst (like initial_state 5 ''p'' (Some ''a''))) 6 ''p'' (Some ''a'') =
       (fst (like initial_state 5 ''p'' (Some ''a'')), Inr (LikeMessage ''Already liked'' True))
   \<and> getCount (fst (like (fst (like initial_state 5 ''p'' (Some ''a''))) 6 ''p'' (Some ''a''))) 5 ''p'' = 1
   \<and> getCount (fst (like initial_state 5 ''p'' (Some ''a''))) (6 + flag_ttl) ''p'' = 1
   \<and> getCount (fst (like (fst (like initial_state 5 ''p'' (Some ''a''))) (6 + flag_ttl) ''p''
        (Some ''a''))) (6 + flag_ttl) ''p'' = 2"
proof -
  have h: "''a'' \<noteq> []" by simp
  have e: "redis_get initial_state 5 (user_like_key ''p'' ''a'') = None"
    by (simp add: initial_state_def redis_get_def)
  have t: "(6::int) \<le> 5 + flag_ttl" by (simp add: flag_ttl_def)
  have z: "getCount initial_state 5 ''p'' = 0"
    by (simp add: initial_state_def getCount_counter redis_defs)
  have l: "getCount (fst (like initial_state 5 ''p'' (Some ''a''))) (6 + flag_ttl) ''p'' = 1"
    by (simp add: like_def Let_def initial_state_def getCount_counter redis_defs
          likes_key_def user_like_key_def)
  from like_idempotent_per_actor [where userId = "''a''" and st = initial_state and now = 5
      and reelId = "''p''" and now' = 6, OF h]
    like_idempotent_per_actor [where userId = "''a''" and st = initial_state and now = 5
      and reelId = "''p''" and now' = "6 + flag_ttl", OF h]
    e t z l
  show ?thesis by simp
qed

text \<open>
  Counterexample to C4 as stated. After \<open>a\<close> has liked \<open>p\<close> at time 5 (count 1), a second
  like by \<open>a\<close> at time 6 finds the flag present: it changes nothing and answers the
  message \<open>Already liked\<close>, not \<open>likesCount = 1\<close>. And a second like by \<open>a\<close> more than 30
  days after the first finds the flag expired and answers \<open>likesCount = 2\<close>: the two
  likes have incremented the counter twice.
\<close>

theorem like_already_liked_counterexample:
  "redis_get liked_state 6 (user_like_key ''p'' ''a'') \<noteq> None
   \<and> getCount liked_state 6 ''p'' = 1
   \<and> like liked_state 6 ''p'' (Some ''a'') = (liked_state, Inr (LikeMessage ''Already liked'' True))
   \<and> snd (like liked_state 6 ''p'' (Some ''a'')) \<noteq> Inr (LikeCount (getCount liked_state 6 ''p'') True)
   \<and> getCount initial_state 5 ''p'' = 0
   \<and> snd (like liked_state (6 + flag_ttl) ''p'' (Some ''a'')) = Inr (LikeCount 2 True)
   \<and> getCount (fst (like liked_state (6 + flag_ttl) ''p'' (Some ''a''))) (6 + flag_ttl) ''p'' = 2"
  by (simp add: liked_state_def like_def Let_def initial_state_def getCount_counter
        redis_defs likes_key_def user_like_key_def flag_ttl_def)

text \<open>
  Claim C5 at a failing input. From the empty Redis, user \<open>c\<close> likes the post \<open>a:b\<close>,
  which sets the flag key \<open>like:a:b:c\<close>; that key is also the flag of the actor \<open>b:c\<close>
  on the post \<open>a\<close>. The unlike of \<open>a\<close> by \<open>b:c\<close> therefore passes the flag check and
  decrements \<open>likes:a\<close> from 0: its own response is clamped to 0, but the stored counter
  is \<open>-1\<close>, and the GET route, which does not clamp, answers \<open>likesCount = -1\<close>. The three
  requests are made at the times 0, 1 and 2.
\<close>

theorem unlike_negative_count:
  "snd (unlike (fst (like initial_state 0 ''a:b'' (Some ''c''))) 1 ''a'' (Some ''b:c''))
     = Inr (LikeCount 0 False)
   \<and> get_likes (fst (unlike (fst (like initial_state 0 ''a:b'' (Some ''c''))) 1 ''a'' (Some ''b:c'')))
       2 ''a'' None = Inr (LikeCount (- 1) False)"
  by (simp add: like_def unlike_def get_likes_def Let_def initial_state_def redis_defs
        likes_key_def user_like_key_def flag_ttl_def)
section \<open>Clustering order and the frame of timeline writes\<close>

lemma cl_before_irrefl: "\<not> cl_before a a"
  by (simp add: cl_before_def)

lemma cl_before_trans: "cl_before a b \<Longrightarrow> cl_before b c \<Longrightarrow> cl_before a c"
  by (auto simp: cl_before_def)

lemma cl_before_total: "cl_before a b \<or> a = b \<or> cl_before b a"
  by (auto simp: cl_before_def prod_eq_iff)

lemma cl_before_pair: "cl_before (t1, r1) (t2, r2) \<longleftrightarrow> t2 < t1 \<or> (t1 = t2 \<and> r1 < r2)"
  by (simp add: cl_before_def)

lemma set_cl_upsert: "set (cl_upsert key e xs) \<subseteq> insert e (set xs)"
  by (induction xs) auto

lemma cl_upsert_mem: "e \<in> set (cl_upsert key e xs)"
  by (induction xs) auto

lemma cl_ordered_upsert: "cl_ordered key xs \<Longrightarrow> cl_ordered key (cl_upsert key e xs)"
proof (induction xs)
  case Nil
  then show ?case by (simp add: cl_ordered_def)
next
  case (Cons x xs)
  show ?case
  proof (cases "cl_before (key e) (key x)")
    case True
    with Cons.prems show ?thesis
      by (auto simp: cl_ordered_def intro: cl_before_trans)
  next
    case False
    show ?thesis
    proof (cases "key e = key x")
      case True
      with False Cons.prems show ?thesis by (auto simp: cl_ordered_def)
    next
      case ne: False
      have xe: "cl_before (key x) (key e)"
        using False ne cl_before_total [of "key e" "key x"] by auto
      have tail: "cl_ordered key (cl_upsert key e xs)"
        using Cons by (simp add: cl_ordered_def)
      have "\<forall>y\<in>set (cl_upsert key e xs). cl_before (key x) (key y)"
        using set_cl_upsert [of key e xs] xe Cons.prems by (auto simp: cl_ordered_def)
      with tail False ne show ?thesis by (simp add: cl_ordered_def)
    qed
  qed
qed

lemma timeline_ordered_try_insert:
  "timeline_ordered st \<Longrightarrow> timeline_ordered (try_insert_timeline fl st u e)"
  by (simp add: timeline_ordered_def try_insert_timeline_def insert_timeline_def cl_ordered_upsert)

lemma timeline_ordered_backfill_rows:
  "timeline_ordered st \<Longrightarrow> timeline_ordered (backfill_rows fl owner author st rows)"
  by (induction rows arbitrary: st) (simp_all add: timeline_ordered_try_insert)

lemma timeline_ordered_backfill_followed:
  "timeline_ordered st \<Longrightarrow> timeline_ordered (backfill_followed fl owner st fs)"
  by (induction fs arbitrary: st) (simp_all add: timeline_ordered_backfill_rows)

lemma timeline_ordered_fan_out:
  "timeline_ordered st \<Longrightarrow> timeline_ordered (fan_out fl e st fs)"
  by (induction fs arbitrary: st) (simp_all add: timeline_ordered_try_insert)

lemma timeline_ordered_assemble:
  "timeline_ordered st \<Longrightarrow> timeline_ordered (fst (assemble st fl owner limit))"
  by (simp add: assemble_def Let_def timeline_ordered_backfill_followed)

lemma timeline_ordered_createPost:
  "timeline_ordered st \<Longrightarrow> timeline_ordered (fst (createPost st fl reelId now userId caption mediaUrl))"
proof -
  assume a: "timeline_ordered st"
  have b: "\<And>s f r. timeline_ordered s \<Longrightarrow> timeline_ordered (insert_user_reels (s\<lparr>reels := f\<rparr>) uu r)" for uu
    by (simp add: timeline_ordered_def insert_user_reels_def)
  have c: "\<And>s k v ex. timeline_ordered s \<Longrightarrow> timeline_ordered (redis_set s k v ex)"
    by (simp add: timeline_ordered_def redis_set_def)
  show ?thesis using a
    by (auto simp: createPost_def Let_def b c timeline_ordered_fan_out split: option.splits)
qed

lemma timeline_ordered_follow:
  "timeline_ordered st \<Longrightarrow> timeline_ordered (fst (follow st fl now userId followerId))"
proof -
  assume a: "timeline_ordered st"
  have b: "\<And>s a b. timeline_ordered s \<Longrightarrow> timeline_ordered (neo4j_merge_follows s a b)"
    by (simp add: timeline_ordered_def neo4j_merge_follows_def)
  have c: "\<And>s f. timeline_ordered s \<Longrightarrow> timeline_ordered (s\<lparr>follows := f\<rparr>)"
    by (simp add: timeline_ordered_def)
  show ?thesis using a
    by (auto simp: follow_def Let_def b c timeline_ordered_backfill_rows split: option.splits)
qed

lemma key_set_cl_upsert: "key ` set (cl_upsert key e xs) = insert (key e) (key ` set xs)"
  by (induction xs) auto

lemma cl_ordered_distinct: "cl_ordered key xs \<Longrightarrow> distinct (map key xs)"
  by (induction xs) (auto simp: cl_ordered_def cl_before_irrefl)

text \<open>Timeline writes change the \<open>timeline\<close> table only.\<close>

lemma try_insert_frame:
  "try_insert_timeline fl st u e = st\<lparr>timeline := timeline (try_insert_timeline fl st u e)\<rparr>"
  by (simp add: try_insert_timeline_def insert_timeline_def)

lemma backfill_rows_frame:
  "backfill_rows fl owner author st rows = st\<lparr>timeline := timeline (backfill_rows fl owner author st rows)\<rparr>"
proof (induction rows arbitrary: st)
  case Nil
  show ?case by simp
next
  case (Cons row rows)
  let ?s1 = "try_insert_timeline fl st owner
          \<lparr>tl_created_at = ur_created_at row, tl_reel_id = ur_reel_id row, tl_author_id = author\<rparr>"
  have "backfill_rows fl owner author ?s1 rows = ?s1\<lparr>timeline := timeline (backfill_rows fl owner author ?s1 rows)\<rparr>"
    by (rule Cons.IH)
  also have "\<dots> = st\<lparr>timeline := timeline (backfill_rows fl owner author ?s1 rows)\<rparr>"
    by (subst try_insert_frame) simp
  finally show ?case by simp
qed

lemma backfill_followed_frame:
  "backfill_followed fl owner st fs = st\<lparr>timeline := timeline (backfill_followed fl owner st fs)\<rparr>"
proof (induction fs arbitrary: st)
  case Nil
  show ?case by simp
next
  case (Cons f fs)
  let ?s1 = "backfill_rows fl owner f st (select_user_reels st f 20)"
  have "backfill_followed fl owner ?s1 fs = ?s1\<lparr>timeline := timeline (backfill_followed fl owner ?s1 fs)\<rparr>"
    by (rule Cons.IH)
  also have "\<dots> = st\<lparr>timeline := timeline (backfill_followed fl owner ?s1 fs)\<rparr>"
    by (subst backfill_rows_frame) simp
  finally show ?case by simp
qed

lemma fan_out_frame:
  "fan_out fl e st fs = st\<lparr>timeline := timeline (fan_out fl e st fs)\<rparr>"
proof (induction fs arbitrary: st)
  case Nil
  show ?case by simp
next
  case (Cons f fs)
  let ?s1 = "try_insert_timeline fl st f e"
  have "fan_out fl e ?s1 fs = ?s1\<lparr>timeline := timeline (fan_out fl e ?s1 fs)\<rparr>"
    by (rule Cons.IH)
  also have "\<dots> = st\<lparr>timeline := timeline (fan_out fl e ?s1 fs)\<rparr>"
    by (subst try_insert_frame) simp
  finally show ?case by simp
qed

lemma user_reels_backfill_rows: "user_reels (backfill_rows fl owner author st rows) = user_reels st"
  by (subst backfill_rows_frame) simp

lemma user_reels_backfill_followed: "user_reels (backfill_followed fl owner st fs) = user_reels st"
  by (subst backfill_followed_frame) simp

text \<open>They change the one partition they write.\<close>

lemma timeline_try_insert_other:
  "u \<noteq> owner \<Longrightarrow> timeline (try_insert_timeline fl st owner e) u = timeline st u"
  by (simp add: try_insert_timeline_def insert_timeline_def)

lemma timeline_backfill_rows_other:
  "u \<noteq> owner \<Longrightarrow> timeline (backfill_rows fl owner author st rows) u = timeline st u"
  by (induction rows arbitrary: st) (simp_all add: timeline_try_insert_other)

lemma timeline_backfill_followed_other:
  "u \<noteq> owner \<Longrightarrow> timeline (backfill_followed fl owner st fs) u = timeline st u"
  by (induction fs arbitrary: st) (simp_all add: timeline_backfill_rows_other)

text \<open>The order of each partition is kept.\<close>

lemma cl_ordered_try_insert:
  "cl_ordered tl_key (timeline st u) \<Longrightarrow> cl_ordered tl_key (timeline (try_insert_timeline fl st u' e) u)"
  by (auto simp: try_insert_timeline_def insert_timeline_def cl_ordered_upsert)

lemma cl_ordered_backfill_rows:
  "cl_ordered tl_key (timeline st u) \<Longrightarrow> cl_ordered tl_key (timeline (backfill_rows fl owner author st rows) u)"
  by (induction rows arbitrary: st) (simp_all add: cl_ordered_try_insert)

lemma cl_ordered_backfill_followed:
  "cl_ordered tl_key (timeline st u) \<Longrightarrow> cl_ordered tl_key (timeline (backfill_followed fl owner st fs) u)"
  by (induction fs arbitrary: st) (simp_all add: cl_ordered_backfill_rows)

text \<open>Where the rows of the owner's partition come from.\<close>

lemma backfill_rows_origin:
  "e \<in> set (timeline (backfill_rows fl owner author st rows) owner) \<Longrightarrow>
     e \<in> set (timeline st owner) \<or> from_index rows author e"
proof (induction rows arbitrary: st)
  case Nil
  then show ?case by simp
next
  case (Cons row rows)
  let ?r = "\<lparr>tl_created_at = ur_created_at row, tl_reel_id = ur_reel_id row, tl_author_id = author\<rparr>"
  from Cons.prems have "e \<in> set (timeline (backfill_rows fl owner author (try_insert_timeline fl st owner ?r) rows) owner)"
    by simp
  then have "e \<in> set (timeline (try_insert_timeline fl st owner ?r) owner) \<or> from_index rows author e"
    by (rule Cons.IH)
  moreover have "set (timeline (try_insert_timeline fl st owner ?r) owner) \<subseteq> insert ?r (set (timeline st owner))"
    using set_cl_upsert [of tl_key ?r "timeline st owner"]
    by (auto simp: try_insert_timeline_def insert_timeline_def)
  moreover have "from_index (row # rows) author ?r"
    by (simp add: from_index_def)
  ultimately show ?case by (auto simp: from_index_def)
qed

lemma backfill_followed_origin:
  "e \<in> set (timeline (backfill_followed fl owner st fs) owner) \<Longrightarrow>
     e \<in> set (timeline st owner) \<or> (\<exists>f\<in>set fs. from_index (take 20 (user_reels st f)) f e)"
proof (induction fs arbitrary: st)
  case Nil
  then show ?case by simp
next
  case (Cons f fs)
  let ?s1 = "backfill_rows fl owner f st (select_user_reels st f 20)"
  from Cons.prems have "e \<in> set (timeline (backfill_followed fl owner ?s1 fs) owner)" by simp
  then have "e \<in> set (timeline ?s1 owner) \<or> (\<exists>g\<in>set fs. from_index (take 20 (user_reels ?s1 g)) g e)"
    by (rule Cons.IH)
  then show ?case
  proof
    assume "e \<in> set (timeline ?s1 owner)"
    then have "e \<in> set (timeline st owner) \<or> from_index (select_user_reels st f 20) f e"
      by (rule backfill_rows_origin)
    then show ?thesis by (auto simp: select_user_reels_def)
  next
    assume "\<exists>g\<in>set fs. from_index (take 20 (user_reels ?s1 g)) g e"
    then show ?thesis by (auto simp: user_reels_backfill_rows)
  qed
qed

text \<open>Without failing writes every indexed row arrives.\<close>

lemma try_insert_keys:
  "tl_key ` set (timeline (try_insert_timeline no_faults st owner e) owner)
     = insert (tl_key e) (tl_key ` set (timeline st owner))"
  by (simp add: try_insert_timeline_def insert_timeline_def no_faults_def key_set_cl_upsert)

lemma tl_key_of_row:
  "tl_key \<lparr>tl_created_at = ur_created_at row, tl_reel_id = ur_reel_id row, tl_author_id = a\<rparr> = ur_key row"
  by (simp add: tl_key_def ur_key_def)

lemma backfill_rows_keys:
  "tl_key ` set (timeline (backfill_rows no_faults owner author st rows) owner)
     = tl_key ` set (timeline st owner) \<union> ur_key ` set rows"
proof (induction rows arbitrary: st)
  case Nil
  show ?case by simp
next
  case (Cons row rows)
  show ?case
    by (simp add: Cons.IH try_insert_keys tl_key_of_row)
qed

lemma backfill_followed_keys:
  "tl_key ` set (timeline (backfill_followed no_faults owner st fs) owner)
     = tl_key ` set (timeline st owner) \<union> (\<Union>f\<in>set fs. ur_key ` set (take 20 (user_reels st f)))"
proof (induction fs arbitrary: st)
  case Nil
  show ?case by simp
next
  case (Cons f fs)
  show ?case
    by (simp add: Cons.IH backfill_rows_keys user_reels_backfill_rows select_user_reels_def Un_assoc)
qed

section \<open>Read-repair\<close>

lemma sorted_refs_of_timeline:
  "cl_ordered tl_key xs \<Longrightarrow>
   sorted_wrt (\<lambda>a b. cl_before (ref_key a) (ref_key b)) (map ref_of_timeline (take n xs))"
proof -
  assume "cl_ordered tl_key xs"
  then have "sorted_wrt (\<lambda>a b. cl_before (tl_key a) (tl_key b)) (take n xs)"
    unfolding cl_ordered_def by (rule sorted_wrt_take)
  then show ?thesis
    by (simp add: sorted_wrt_map ref_key_def ref_of_timeline_def tl_key_def)
qed

lemma assemble_nonempty:
  "0 < limit \<Longrightarrow> timeline st owner \<noteq> [] \<Longrightarrow>
   assemble st fl owner limit = (st, map ref_of_timeline (take limit (timeline st owner)))"
  by (simp add: assemble_def select_timeline_def Let_def)

lemma assemble_repair:
  "timeline st owner = [] \<Longrightarrow> mongo_following st owner \<noteq> [] \<Longrightarrow>
   assemble st fl owner limit =
     (backfill_followed fl owner st (mongo_following st owner),
      map ref_of_timeline
        (take limit (timeline (backfill_followed fl owner st (mongo_following st owner)) owner)))"
  by (simp add: assemble_def select_timeline_def Let_def)

lemma assemble_self_view:
  "timeline st owner = [] \<Longrightarrow> mongo_following st owner = [] \<Longrightarrow>
   assemble st fl owner limit = (st, map (ref_of_own owner) (take limit (user_reels st owner)))"
  by (simp add: assemble_def select_timeline_def select_user_reels_def Let_def)

lemma cl_ordered_Nil: "cl_ordered key []"
  by (simp add: cl_ordered_def)

text \<open>
  Claim C1. For every owner and positive page size, the assembler first reads the
  owner's partition limited to the page size. If the partition is not empty, that read
  is the result and no store is written. If it is empty and the owner follows someone,
  the top 20 rows of each followed user's index are inserted into the owner's
  partition and the partition is read again: only the \<open>timeline\<close> table changes, only
  the owner's partition, its keys stay distinct (a duplicate key adds no row), every
  row comes from a followed user's index with that user as author, and without failing
  writes every indexed row is there. If it is empty and the owner follows no one, the
  result is the owner's own index. Whenever no reference is found the route answers
  the explicit empty page (status 200 with a message), not an error.
\<close>

theorem getFeed_read_repair:
  assumes "0 < limit"
  shows "(timeline st owner \<noteq> [] \<longrightarrow>
            assemble st fl owner limit = (st, map ref_of_timeline (take limit (timeline st owner))))
       \<and> (timeline st owner = [] \<and> mongo_following st owner \<noteq> [] \<longrightarrow>
            (let st' = fst (assemble st fl owner limit) in
               snd (assemble st fl owner limit) = map ref_of_timeline (take limit (timeline st' owner))
             \<and> st' = st\<lparr>timeline := timeline st'\<rparr>
             \<and> (\<forall>u. u \<noteq> owner \<longrightarrow> timeline st' u = timeline st u)
             \<and> distinct (map tl_key (timeline st' owner))
             \<and> (\<forall>e\<in>set (timeline st' owner).
                   \<exists>f\<in>set (mongo_following st owner). from_index (take 20 (user_reels st f)) f e)
             \<and> (fl = no_faults \<longrightarrow>
                   tl_key ` set (timeline st' owner) =
                     (\<Union>f\<in>set (mongo_following st owner). ur_key ` set (take 20 (user_reels st f))))))
       \<and> (timeline st owner = [] \<and> mongo_following st owner = [] \<longrightarrow>
            assemble st fl owner limit = (st, map (ref_of_own owner) (take limit (user_reels st owner))))
       \<and> (owner \<noteq> [] \<and> cassandra_connected st \<and> mongo_connected st
            \<and> snd (assemble st fl owner limit) = [] \<longrightarrow>
            getFeed st fl proxy order now (Some owner) page limit =
              (fst (assemble st fl owner limit),
               Inr \<lparr>fr_reels = [], fr_page = page, fr_limit = limit,
                    fr_message = Some ''No reels found. Follow some users or create your first reel!''\<rparr>))"
proof (intro conjI impI)
  assume "timeline st owner \<noteq> []"
  with assms show "assemble st fl owner limit = (st, map ref_of_timeline (take limit (timeline st owner)))"
    by (simp add: assemble_nonempty)
next
  assume a: "timeline st owner = [] \<and> mongo_following st owner \<noteq> []"
  let ?fs = "mongo_following st owner"
  let ?st' = "backfill_followed fl owner st ?fs"
  have eq: "assemble st fl owner limit = (?st', map ref_of_timeline (take limit (timeline ?st' owner)))"
    using a by (simp add: assemble_repair)
  have 1: "?st' = st\<lparr>timeline := timeline ?st'\<rparr>"
    by (rule backfill_followed_frame)
  have 2: "\<forall>u. u \<noteq> owner \<longrightarrow> timeline ?st' u = timeline st u"
    by (simp add: timeline_backfill_followed_other)
  have "cl_ordered tl_key (timeline ?st' owner)"
    using a by (intro cl_ordered_backfill_followed) (simp add: cl_ordered_Nil)
  then have 3: "distinct (map tl_key (timeline ?st' owner))"
    by (rule cl_ordered_distinct)
  have 4: "\<forall>e\<in>set (timeline ?st' owner). \<exists>f\<in>set ?fs. from_index (take 20 (user_reels st f)) f e"
    using a backfill_followed_origin [of _ fl owner st ?fs] by auto
  have 5: "fl = no_faults \<longrightarrow> tl_key ` set (timeline ?st' owner) =
             (\<Union>f\<in>set ?fs. ur_key ` set (take 20 (user_reels st f)))"
    using a by (simp add: backfill_followed_keys)
  show "let st' = fst (assemble st fl owner limit) in
               snd (assemble st fl owner limit) = map ref_of_timeline (take limit (timeline st' owner))
             \<and> st' = st\<lparr>timeline := timeline st'\<rparr>
             \<and> (\<forall>u. u \<noteq> owner \<longrightarrow> timeline st' u = timeline st u)
             \<and> distinct (map tl_key (timeline st' owner))
             \<and> (\<forall>e\<in>set (timeline st' owner).
                   \<exists>f\<in>set (mongo_following st owner). from_index (take 20 (user_reels st f)) f e)
             \<and> (fl = no_faults \<longrightarrow>
                   tl_key ` set (timeline st' owner) =
                     (\<Union>f\<in>set (mongo_following st owner). ur_key ` set (take 20 (user_reels st f))))"
    unfolding eq Let_def fst_conv snd_conv
    using 1 2 3 4 5 by blast
next
  assume "timeline st owner = [] \<and> mongo_following st owner = []"
  then show "assemble st fl owner limit = (st, map (ref_of_own owner) (take limit (user_reels st owner)))"
    by (simp add: assemble_self_view)
next
  assume "owner \<noteq> [] \<and> cassandra_connected st \<and> mongo_connected st
            \<and> snd (assemble st fl owner limit) = []"
  then show "getFeed st fl proxy order now (Some owner) page limit =
              (fst (assemble st fl owner limit),
               Inr \<lparr>fr_reels = [], fr_page = page, fr_limit = limit,
                    fr_message = Some ''No reels found. Follow some users or create your first reel!''\<rparr>)"
    by (cases "assemble st fl owner limit") (simp add: getFeed_def)
qed

text \<open>The definitions a concrete run unfolds.\<close>

lemmas eval_defs = assemble_def select_timeline_def select_user_reels_def mongo_following_def
  scenario_def initial_state_def Let_def try_insert_timeline_def insert_timeline_def no_faults_def
  cl_before_def tl_key_def ur_key_def ref_of_timeline_def ref_of_own_def

text \<open>The definitions a concrete run of the follow routes unfolds.\<close>

lemmas follow_eval = follow_def unfollow_def neo4j_merge_follows_def neo4j_delete_follows_def
  edge_of_def neo4j_followers_def mongo_followers_def

text \<open>
  Witness for C1, on the scenario of the specification: \<open>u1\<close> (empty partition, follows
  \<open>u2\<close> and \<open>u3\<close>) gets \<open>r3, r2, r1\<close>, all by \<open>u2\<close>, and the partition is filled; a
  second read of the filled partition with page size 2 returns its first two rows;
  \<open>u2\<close> (follows no one) sees the own index; \<open>u3\<close> (follows no one, no posts) gets the
  explicit empty page.
\<close>

theorem getFeed_read_repair_witness:
  "0 < (10::nat) \<and> timeline scenario ''u1'' = [] \<and> mongo_following scenario ''u1'' = [''u2'', ''u3'']
   \<and> snd (assemble scenario no_faults ''u1'' 10) =
       [\<lparr>ref_reelId = ''r3'', ref_authorId = ''u2'', ref_createdAt = 3\<rparr>,
        \<lparr>ref_reelId = ''r2'', ref_authorId = ''u2'', ref_createdAt = 2\<rparr>,
        \<lparr>ref_reelId = ''r1'', ref_authorId = ''u2'', ref_createdAt = 1\<rparr>]
   \<and> timeline (fst (assemble scenario no_faults ''u1'' 10)) ''u1'' =
       [\<lparr>tl_created_at = 3, tl_reel_id = ''r3'', tl_author_id = ''u2''\<rparr>,
        \<lparr>tl_created_at = 2, tl_reel_id = ''r2'', tl_author_id = ''u2''\<rparr>,
        \<lparr>tl_created_at = 1, tl_reel_id = ''r1'', tl_author_id = ''u2''\<rparr>]
   \<and> snd (assemble (fst (assemble scenario no_faults ''u1'' 10)) no_faults ''u1'' 2) =
       [\<lparr>ref_reelId = ''r3'', ref_authorId = ''u2'', ref_createdAt = 3\<rparr>,
        \<lparr>ref_reelId = ''r2'', ref_authorId = ''u2'', ref_createdAt = 2\<rparr>]
   \<and> mongo_following scenario ''u2'' = []
   \<and> assemble scenario no_faults ''u2'' 1 =
       (scenario, [\<lparr>ref_reelId = ''r3'', ref_authorId = ''u2'', ref_createdAt = 3\<rparr>])
   \<and> snd (assemble scenario no_faults ''u3'' 10) = []
   \<and> getFeed scenario no_faults id [] 4 (Some ''u3'') 1 10 =
       (scenario, Inr \<lparr>fr_reels = [], fr_page = 1, fr_limit = 10,
          fr_message = Some ''No reels found. Follow some users or create your first reel!''\<rparr>)"
  using getFeed_read_repair [of 10 scenario "''u1''" no_faults id "[]" 4 1]
    getFeed_read_repair [of 2 "fst (assemble scenario no_faults ''u1'' 10)" "''u1''" no_faults id "[]" 4 1]
    getFeed_read_repair [of 1 scenario "''u2''" no_faults id "[]" 4 1]
    getFeed_read_repair [of 10 scenario "''u3''" no_faults id "[]" 4 1]
  by (simp add: eval_defs)

section \<open>Enrichment\<close>

lemma slots_ok_init: "slots_ok f xs (replicate (length xs) None)"
  by (simp add: slots_ok_def)

lemma slots_ok_settle: "slots_ok f xs slots \<Longrightarrow> slots_ok f xs (settle f xs slots i)"
  by (auto simp: slots_ok_def settle_def nth_list_update)

lemma settle_keeps:
  "slots_ok f xs slots \<Longrightarrow> j < length xs \<Longrightarrow> slots ! j \<noteq> None \<Longrightarrow> settle f xs slots i ! j \<noteq> None"
  by (auto simp: slots_ok_def settle_def nth_list_update)

lemma settle_settles:
  "slots_ok f xs slots \<Longrightarrow> i < length xs \<Longrightarrow> settle f xs slots i ! i \<noteq> None"
  by (auto simp: slots_ok_def settle_def)

lemma foldl_settle_ok:
  "slots_ok f xs slots \<Longrightarrow> slots_ok f xs (foldl (settle f xs) slots is)"
  by (induction "is" arbitrary: slots) (simp_all add: slots_ok_settle)

lemma foldl_settle_keeps:
  "slots_ok f xs slots \<Longrightarrow> j < length xs \<Longrightarrow> slots ! j \<noteq> None \<Longrightarrow>
   foldl (settle f xs) slots is ! j \<noteq> None"
proof (induction "is" arbitrary: slots)
  case Nil
  then show ?case by simp
next
  case (Cons i "is")
  have "foldl (settle f xs) (settle f xs slots i) is ! j \<noteq> None"
    using Cons.prems by (intro Cons.IH slots_ok_settle settle_keeps)
  then show ?case by simp
qed

lemma foldl_settle_all:
  "slots_ok f xs slots \<Longrightarrow> j \<in> set is \<Longrightarrow> j < length xs \<Longrightarrow>
   foldl (settle f xs) slots is ! j \<noteq> None"
proof (induction "is" arbitrary: slots)
  case Nil
  then show ?case by simp
next
  case (Cons i "is")
  show ?case
  proof (cases "j = i")
    case True
    have "settle f xs slots i ! j \<noteq> None"
      using Cons.prems True settle_settles [of f xs slots i] by blast
    then have "foldl (settle f xs) (settle f xs slots i) is ! j \<noteq> None"
      using Cons.prems by (intro foldl_settle_keeps slots_ok_settle)
    then show ?thesis by simp
  next
    case False
    have "foldl (settle f xs) (settle f xs slots i) is ! j \<noteq> None"
      using Cons.prems False by (intro Cons.IH slots_ok_settle) simp_all
    then show ?thesis by simp
  qed
qed

lemma promise_all_positional: "promise_all f xs order = map (\<lambda>x. Some (f x)) xs"
proof (rule nth_equalityI)
  let ?r = "promise_all f xs order"
  have ok: "slots_ok f xs ?r"
    unfolding promise_all_def by (intro foldl_settle_ok slots_ok_init)
  then show "length ?r = length (map (\<lambda>x. Some (f x)) xs)"
    by (simp add: slots_ok_def)
  fix i assume "i < length ?r"
  with ok have i: "i < length xs" by (simp add: slots_ok_def)
  have "?r ! i \<noteq> None"
    unfolding promise_all_def using i
    by (intro foldl_settle_all slots_ok_init) simp_all
  with ok i have "?r ! i = Some (f (xs ! i))"
    by (auto simp: slots_ok_def)
  with i show "?r ! i = map (\<lambda>x. Some (f x)) xs ! i" by simp
qed

lemma map_filter_non_null: "List.map_filter non_null (map (\<lambda>x. Some (f x)) xs) = List.map_filter f xs"
  by (induction xs) (auto split: option.splits)

lemma enrich_positional: "enrich st proxy now order refs = List.map_filter (enrich_one st proxy now) refs"
  by (simp add: enrich_def promise_all_positional map_filter_non_null)

lemma enrich_one_id: "enrich_one st proxy now r = Some item \<Longrightarrow> fi_id item = ref_reelId r"
  by (auto simp: enrich_one_def split: option.splits)

lemma enrich_one_resolved: "(enrich_one st proxy now r = None) = (reels st (ref_reelId r) = None)"
  by (simp add: enrich_one_def split: option.splits)

lemma map_filter_ids:
  "map fi_id (List.map_filter (enrich_one st proxy now) refs) =
   map ref_reelId (filter (\<lambda>r. reels st (ref_reelId r) \<noteq> None) refs)"
proof (induction refs)
  case Nil
  show ?case by simp
next
  case (Cons r refs)
  show ?case
  proof (cases "enrich_one st proxy now r")
    case None
    then have "reels st (ref_reelId r) = None"
      by (simp add: enrich_one_resolved)
    with None Cons show ?thesis by simp
  next
    case (Some item)
    then have "reels st (ref_reelId r) \<noteq> None"
      using enrich_one_resolved [of st proxy now r] by auto
    with Some Cons show ?thesis by (simp add: enrich_one_id)
  qed
qed

lemma author_of_id: "a_id (author_of st a) = a"
  by (auto simp: author_of_def find_user_def find_Some_iff split: option.splits)

lemma enrich_one_author: "enrich_one st proxy now r = Some item \<Longrightarrow> a_id (fi_author item) = ref_authorId r"
  by (auto simp: enrich_one_def author_of_id split: option.splits)

lemma enrich_authors:
  "item \<in> set (enrich st proxy now order refs) \<Longrightarrow> \<exists>r\<in>set refs. a_id (fi_author item) = ref_authorId r"
  by (auto simp: enrich_positional List.map_filter_def enrich_one_author)

text \<open>
  Claim C7. For every ordered list of post references, the join is the positional map
  of the per-reference lookup with the unresolved references (no row in \<open>reels\<close>)
  dropped: the result does not depend on the order in which the lookups complete, the
  surviving entries are in the order of their references, and a reference is dropped
  exactly when its post cannot be resolved.
\<close>

theorem enrich_drops_unresolved_keeps_order:
  "enrich st proxy now order refs = List.map_filter (enrich_one st proxy now) refs
   \<and> enrich st proxy now order refs = enrich st proxy now order' refs
   \<and> map fi_id (enrich st proxy now order refs) =
       map ref_reelId (filter (\<lambda>r. reels st (ref_reelId r) \<noteq> None) refs)
   \<and> (enrich_one st proxy now r = None) = (reels st (ref_reelId r) = None)"
proof -
  have pos: "enrich st proxy now order refs = List.map_filter (enrich_one st proxy now) refs"
    by (rule enrich_positional)
  have pos': "enrich st proxy now order' refs = List.map_filter (enrich_one st proxy now) refs"
    by (rule enrich_positional)
  have ids: "map fi_id (enrich st proxy now order refs) =
       map ref_reelId (filter (\<lambda>r. reels st (ref_reelId r) \<noteq> None) refs)"
    unfolding pos by (rule map_filter_ids)
  have dropped: "(enrich_one st proxy now r = None) = (reels st (ref_reelId r) = None)"
    by (rule enrich_one_resolved)
  from pos pos' ids dropped show ?thesis by simp
qed

text \<open>
  A run for C7: with the post \<open>r2\<close> deleted, the references \<open>r3, r2, r1\<close> are enriched to
  \<open>r3, r1\<close>, also when the lookups complete in the order 2, 0, 1.
\<close>

theorem enrich_drops_unresolved_keeps_order_witness:
  "map fi_id (enrich (scenario\<lparr>reels := (reels scenario)(''r2'' := None)\<rparr>) id 4 [2, 0, 1]
      [\<lparr>ref_reelId = ''r3'', ref_authorId = ''u2'', ref_createdAt = 3\<rparr>,
       \<lparr>ref_reelId = ''r2'', ref_authorId = ''u2'', ref_createdAt = 2\<rparr>,
       \<lparr>ref_reelId = ''r1'', ref_authorId = ''u2'', ref_createdAt = 1\<rparr>]) = [''r3'', ''r1'']"
  using enrich_drops_unresolved_keeps_order
    [of "scenario\<lparr>reels := (reels scenario)(''r2'' := None)\<rparr>" id 4 "[2, 0, 1]"
        "[\<lparr>ref_reelId = ''r3'', ref_authorId = ''u2'', ref_createdAt = 3\<rparr>,
          \<lparr>ref_reelId = ''r2'', ref_authorId = ''u2'', ref_createdAt = 2\<rparr>,
          \<lparr>ref_reelId = ''r1'', ref_authorId = ''u2'', ref_createdAt = 1\<rparr>]"]
  by (simp add: scenario_def initial_state_def enrich_one_def)

section \<open>The ordering invariant\<close>

lemma timeline_ordered_insert:
  "timeline_ordered st \<Longrightarrow> timeline_ordered (insert_timeline st u e)"
  by (simp add: timeline_ordered_def insert_timeline_def cl_ordered_upsert)

lemma timeline_ordered_unfollow:
  "timeline_ordered st \<Longrightarrow> timeline_ordered (fst (unfollow st fl userId followerId))"
  by (auto simp: unfollow_def Let_def timeline_ordered_def neo4j_delete_follows_def
        split: option.splits)

lemma timeline_ordered_initial: "timeline_ordered initial_state"
  by (simp add: timeline_ordered_def initial_state_def cl_ordered_def)

lemma repair_refs_sorted:
  assumes "timeline st owner = []" "mongo_following st owner \<noteq> []"
  shows "sorted_wrt (\<lambda>a b. cl_before (ref_key a) (ref_key b)) (snd (assemble st fl owner limit))"
proof -
  have "cl_ordered tl_key (timeline (backfill_followed fl owner st (mongo_following st owner)) owner)"
    using assms by (intro cl_ordered_backfill_followed) (simp add: cl_ordered_Nil)
  then show ?thesis
    using assms by (simp add: assemble_repair sorted_refs_of_timeline)
qed

lemma repair_refs_authors:
  assumes "timeline st owner = []" "mongo_following st owner \<noteq> []"
    and "r \<in> set (snd (assemble st fl owner limit))"
  shows "ref_authorId r \<in> set (mongo_following st owner)"
proof -
  let ?st' = "backfill_followed fl owner st (mongo_following st owner)"
  from assms obtain e where e: "e \<in> set (take limit (timeline ?st' owner))" "r = ref_of_timeline e"
    by (auto simp: assemble_repair)
  from e(1) have "e \<in> set (timeline ?st' owner)" by (rule in_set_takeD)
  then have "\<exists>f\<in>set (mongo_following st owner). from_index (take 20 (user_reels st f)) f e"
    using assms(1) backfill_followed_origin [of e fl owner st "mongo_following st owner"] by simp
  then show ?thesis
    using e(2) by (auto simp: from_index_def ref_of_timeline_def)
qed

lemma ordered_refs_nonempty:
  assumes "timeline_ordered st" "timeline st owner \<noteq> []"
  shows "sorted_wrt (\<lambda>a b. cl_before (ref_key a) (ref_key b)) (snd (assemble st fl owner limit))"
proof -
  have o: "cl_ordered tl_key (timeline st owner)"
    using assms(1) by (simp add: timeline_ordered_def)
  show ?thesis
  proof (cases "select_timeline st owner limit = []")
    case False
    then show ?thesis
      using o by (simp add: assemble_def select_timeline_def sorted_refs_of_timeline)
  next
    case True
    then have l: "limit = 0" using assms(2) by (simp add: select_timeline_def)
    show ?thesis
      by (simp add: assemble_def select_timeline_def select_user_reels_def l Let_def)
  qed
qed

lemma getFeed_items:
  "getFeed st fl proxy order now (Some owner) page limit = (st', Inr resp) \<Longrightarrow>
   item \<in> set (fr_reels resp) \<Longrightarrow>
   \<exists>r\<in>set (snd (assemble st fl owner limit)). a_id (fi_author item) = ref_authorId r"
  by (cases "assemble st fl owner limit")
     (auto simp: getFeed_def split: if_splits dest: enrich_authors)

lemma timeline_getFeed:
  "timeline (fst (getFeed st fl proxy order now userId page limit)) =
     (case userId of
        None \<Rightarrow> timeline st
      | Some uid \<Rightarrow>
          if uid = [] \<or> \<not> cassandra_connected st \<or> \<not> mongo_connected st then timeline st
          else timeline (fst (assemble st fl uid limit)))"
  by (cases "assemble st fl (the userId) limit")
     (auto simp: getFeed_def split: option.splits)

lemma timeline_ordered_getFeed:
  "timeline_ordered st \<Longrightarrow>
   timeline_ordered (fst (getFeed st fl proxy order now userId page limit))"
  using timeline_ordered_assemble [of st fl _ limit]
  by (auto simp: timeline_ordered_def timeline_getFeed split: option.splits)

lemma timeline_ordered_like:
  "timeline_ordered st \<Longrightarrow> timeline_ordered (fst (like st now reelId userId))"
  by (auto simp: timeline_ordered_def like_def Let_def redis_set_def redis_incrby_def
        split: option.splits)

lemma timeline_ordered_unlike:
  "timeline_ordered st \<Longrightarrow> timeline_ordered (fst (unlike st now reelId userId))"
  by (auto simp: timeline_ordered_def unlike_def Let_def redis_del_def redis_incrby_def
        split: option.splits)

text \<open>Rule induction over the reached states.\<close>

lemma reachable_timeline_ordered: "reachable st \<Longrightarrow> timeline_ordered st"
proof (induction rule: reachable.induct)
  case reachable_initial
  show ?case by (rule timeline_ordered_initial)
next
  case (reachable_createPost st fl reelId now userId caption mediaUrl)
  then show ?case by (simp add: timeline_ordered_createPost)
next
  case (reachable_follow st fl now userId followerId)
  then show ?case by (simp add: timeline_ordered_follow)
next
  case (reachable_unfollow st fl userId followerId)
  then show ?case by (simp add: timeline_ordered_unfollow)
next
  case (reachable_getFeed st fl proxy order now userId page limit)
  then show ?case by (simp add: timeline_ordered_getFeed)
next
  case (reachable_like st now reelId userId)
  then show ?case by (simp add: timeline_ordered_like)
next
  case (reachable_unlike st now reelId userId)
  then show ?case by (simp add: timeline_ordered_unlike)
next
  case (reachable_profiles st us ns cs)
  then show ?case by (simp add: timeline_ordered_def)
next
  case (reachable_connections st c m n)
  then show ?case by (simp add: timeline_ordered_def)
qed

text \<open>
  Claim C2. The ordering invariant of a partition is strict clustering order: newer
  \<open>created_at\<close> first, rows of one timestamp by ascending reel id. Every partition of
  every reached state satisfies it: the initial state does, and every append (a timeline INSERT, guarded or not), the read-repair of
  the feed route, the fan-out of post creation, the backfill of follow, and unfollow
  preserve it for every partition. Consequently a page read from a non-empty partition
  is in that order; and for an owner with an empty partition and a non-empty following
  set the assembled references are in that order and all authored by followed users,
  and so is every item of the enriched page.
\<close>

theorem timeline_ordering_invariant:
  "timeline_ordered initial_state
   \<and> cl_before (t1, r1) (t2, r2) = (t2 < t1 \<or> (t1 = t2 \<and> r1 < r2))
   \<and> (reachable st \<longrightarrow> timeline_ordered st)
   \<and> (timeline_ordered st \<longrightarrow>
         timeline_ordered (insert_timeline st u e)
       \<and> timeline_ordered (try_insert_timeline fl st u e)
       \<and> timeline_ordered (fst (assemble st fl owner limit))
       \<and> timeline_ordered (fst (createPost st fl reelId now userId caption mediaUrl))
       \<and> timeline_ordered (fst (follow st fl now followed followerId))
       \<and> timeline_ordered (fst (unfollow st fl followed followerId))
       \<and> (timeline st owner \<noteq> [] \<longrightarrow>
            sorted_wrt (\<lambda>a b. cl_before (ref_key a) (ref_key b)) (snd (assemble st fl owner limit))))
   \<and> (timeline st owner = [] \<and> mongo_following st owner \<noteq> [] \<longrightarrow>
         sorted_wrt (\<lambda>a b. cl_before (ref_key a) (ref_key b)) (snd (assemble st fl owner limit))
       \<and> (\<forall>r\<in>set (snd (assemble st fl owner limit)). ref_authorId r \<in> set (mongo_following st owner))
       \<and> (\<forall>st' resp. getFeed st fl proxy order now (Some owner) page limit = (st', Inr resp) \<longrightarrow>
            (\<forall>item\<in>set (fr_reels resp). a_id (fi_author item) \<in> set (mongo_following st owner))))"
proof (intro conjI impI allI ballI)
  fix st' resp item
  assume a: "timeline st owner = [] \<and> mongo_following st owner \<noteq> []"
    and g: "getFeed st fl proxy order now (Some owner) page limit = (st', Inr resp)"
    and i: "item \<in> set (fr_reels resp)"
  from getFeed_items [OF g i] obtain r where
    "r \<in> set (snd (assemble st fl owner limit))" "a_id (fi_author item) = ref_authorId r" by blast
  with a show "a_id (fi_author item) \<in> set (mongo_following st owner)"
    using repair_refs_authors [of st owner r fl limit] by simp
qed (simp_all add: timeline_ordered_initial cl_before_pair timeline_ordered_insert
      timeline_ordered_try_insert timeline_ordered_assemble timeline_ordered_createPost
      timeline_ordered_follow timeline_ordered_unfollow ordered_refs_nonempty
      repair_refs_sorted repair_refs_authors reachable_timeline_ordered)

text \<open>
  Witness for C2: the scenario state satisfies the invariant; two appends with the same
  timestamp end in ascending reel id, before an older row; the repaired feed of \<open>u1\<close>
  is \<open>r3, r2, r1\<close>, authored by the followed \<open>u2\<close>; and in a reached state the two posts
  of one timestamp fanned out to \<open>u1\<close> stand in ascending reel id.
\<close>

theorem timeline_ordering_invariant_witness:
  "timeline_ordered scenario
   \<and> timeline (insert_timeline (insert_timeline (insert_timeline scenario ''u1''
          \<lparr>tl_created_at = 5, tl_reel_id = ''rb'', tl_author_id = ''u2''\<rparr>) ''u1''
          \<lparr>tl_created_at = 4, tl_reel_id = ''rc'', tl_author_id = ''u2''\<rparr>) ''u1''
          \<lparr>tl_created_at = 5, tl_reel_id = ''ra'', tl_author_id = ''u2''\<rparr>) ''u1'' =
       [\<lparr>tl_created_at = 5, tl_reel_id = ''ra'', tl_author_id = ''u2''\<rparr>,
        \<lparr>tl_created_at = 5, tl_reel_id = ''rb'', tl_author_id = ''u2''\<rparr>,
        \<lparr>tl_created_at = 4, tl_reel_id = ''rc'', tl_author_id = ''u2''\<rparr>]
   \<and> timeline scenario ''u1'' = [] \<and> mongo_following scenario ''u1'' = [''u2'', ''u3'']
   \<and> map ref_key (snd (assemble scenario no_faults ''u1'' 10)) = [(3, ''r3''), (2, ''r2''), (1, ''r1'')]
   \<and> map ref_authorId (snd (assemble scenario no_faults ''u1'' 10)) = [''u2'', ''u2'', ''u2'']
   \<and> timeline_ordered (fst (assemble scenario no_faults ''u1'' 10))
   \<and> reachable posted_state \<and> timeline_ordered posted_state
   \<and> map tl_key (timeline posted_state ''u1'') = [(1, ''r0''), (1, ''r1'')]"
proof -
  have r: "reachable posted_state"
    unfolding posted_state_def
    by (intro reachable_createPost reachable_follow reachable_profiles reachable_initial)
  have o: "timeline_ordered posted_state"
    using r timeline_ordering_invariant [where st = posted_state] by blast
  have p: "map tl_key (timeline posted_state ''u1'') = [(1, ''r0''), (1, ''r1'')]"
    by (simp add: posted_state_def eval_defs createPost_def follow_def resolve_followers_def
          neo4j_followers_def mongo_followers_def neo4j_merge_follows_def insert_user_reels_def
          redis_set_def)
  have "timeline_ordered scenario
   \<and> timeline (insert_timeline (insert_timeline (insert_timeline scenario ''u1''
          \<lparr>tl_created_at = 5, tl_reel_id = ''rb'', tl_author_id = ''u2''\<rparr>) ''u1''
          \<lparr>tl_created_at = 4, tl_reel_id = ''rc'', tl_author_id = ''u2''\<rparr>) ''u1''
          \<lparr>tl_created_at = 5, tl_reel_id = ''ra'', tl_author_id = ''u2''\<rparr>) ''u1'' =
       [\<lparr>tl_created_at = 5, tl_reel_id = ''ra'', tl_author_id = ''u2''\<rparr>,
        \<lparr>tl_created_at = 5, tl_reel_id = ''rb'', tl_author_id = ''u2''\<rparr>,
        \<lparr>tl_created_at = 4, tl_reel_id = ''rc'', tl_author_id = ''u2''\<rparr>]
   \<and> timeline scenario ''u1'' = [] \<and> mongo_following scenario ''u1'' = [''u2'', ''u3'']
   \<and> map ref_key (snd (assemble scenario no_faults ''u1'' 10)) = [(3, ''r3''), (2, ''r2''), (1, ''r1'')]
   \<and> map ref_authorId (snd (assemble scenario no_faults ''u1'' 10)) = [''u2'', ''u2'', ''u2'']
   \<and> timeline_ordered (fst (assemble scenario no_faults ''u1'' 10))"
    using timeline_ordering_invariant [where st = scenario and owner = "''u1''" and fl = no_faults
        and limit = 10]
    by (simp add: eval_defs ref_key_def timeline_ordered_def cl_ordered_def)
  with r o p show ?thesis by blast
qed

section \<open>Fan-out\<close>

lemma cl_upsert_idem: "cl_upsert key e (cl_upsert key e xs) = cl_upsert key e xs"
  by (induction xs) (auto simp: cl_before_irrefl)

lemma insert_timeline_idem: "insert_timeline (insert_timeline st u e) u e = insert_timeline st u e"
  by (simp add: insert_timeline_def cl_upsert_idem)

lemma filter_cl_upsert_fresh:
  "\<forall>x\<in>set xs. tl_reel_id x \<noteq> tl_reel_id e \<Longrightarrow>
   filter (\<lambda>x. tl_reel_id x = tl_reel_id e) (cl_upsert tl_key e xs) = [e]"
proof (induction xs)
  case Nil
  show ?case by simp
next
  case (Cons x xs)
  then have f: "filter (\<lambda>x. tl_reel_id x = tl_reel_id e) xs = []"
    by (auto simp: filter_empty_conv)
  from Cons show ?case by (auto simp: f)
qed

lemma timeline_fan_out:
  "timeline (fan_out no_faults e st fs) u =
     (if u \<in> set fs then cl_upsert tl_key e (timeline st u) else timeline st u)"
proof (induction fs arbitrary: st)
  case Nil
  show ?case by simp
next
  case (Cons f fs)
  show ?case
    by (simp add: Cons.IH)
       (simp add: try_insert_timeline_def insert_timeline_def no_faults_def cl_upsert_idem)
qed

lemma createPost_succeeds:
  "userId \<noteq> [] \<Longrightarrow> mediaUrl \<noteq> [] \<Longrightarrow> cassandra_connected st \<Longrightarrow> mongo_connected st \<Longrightarrow>
   snd (createPost st fl reelId now (Some userId) caption (Some mediaUrl)) = Inr reelId"
  by (simp add: createPost_def Let_def insert_user_reels_def)

lemma resolve_followers_cong:
  "neo4j_connected st' = neo4j_connected st \<Longrightarrow> neo4j_follows st' = neo4j_follows st \<Longrightarrow>
   follows st' = follows st \<Longrightarrow> resolve_followers st' fl u = resolve_followers st fl u"
  by (simp add: resolve_followers_def neo4j_followers_def mongo_followers_def)

lemma createPost_state:
  assumes "userId \<noteq> []" "mediaUrl \<noteq> []" "cassandra_connected st" "mongo_connected st"
  shows "fst (createPost st fl reelId now (Some userId) caption (Some mediaUrl)) =
     redis_set (fan_out fl \<lparr>tl_created_at = now, tl_reel_id = reelId, tl_author_id = userId\<rparr>
        (insert_user_reels
           (st\<lparr>reels := (reels st)(reelId \<mapsto>
                 \<lparr>r_user_id = userId, r_caption = (case caption of None \<Rightarrow> [] | Some c \<Rightarrow> c),
                  r_media_url = mediaUrl, r_created_at = now\<rparr>)\<rparr>)
           userId \<lparr>ur_created_at = now, ur_reel_id = reelId\<rparr>)
        (resolve_followers st fl userId))
       (likes_key reelId) 0 None"
proof -
  let ?st2 = "insert_user_reels
           (st\<lparr>reels := (reels st)(reelId \<mapsto>
                 \<lparr>r_user_id = userId, r_caption = (case caption of None \<Rightarrow> [] | Some c \<Rightarrow> c),
                  r_media_url = mediaUrl, r_created_at = now\<rparr>)\<rparr>)
           userId \<lparr>ur_created_at = now, ur_reel_id = reelId\<rparr>"
  let ?e = "\<lparr>tl_created_at = now, tl_reel_id = reelId, tl_author_id = userId\<rparr>"
  have r: "resolve_followers ?st2 fl userId = resolve_followers st fl userId"
    by (rule resolve_followers_cong) (simp_all add: insert_user_reels_def)
  have m: "mongo_connected ?st2" using assms by (simp add: insert_user_reels_def)
  show ?thesis
    using assms m by (simp add: createPost_def Let_def r)
qed

text \<open>
  Claim C3, as the code has it. For a valid request with Cassandra and Mongo connected,
  no failing write and a fresh reel id (\<open>Uuid.random()\<close>: no timeline row carries it
  yet), post creation answers the new id, stores the post in \<open>reels\<close> and adds it to the
  author's own index. The partition of every follower the route resolves ends with
  exactly one row for the post (the expected one), and no other partition changes. The
  followers the route resolves are the graph store's when it is connected and returns
  at least one, the \<open>follows\<close> collection's otherwise; they are all the followers of
  the \<open>follows\<close> collection when the two backends hold the same followers of the
  author. Re-appending a row under its key is a no-op, and whatever timeline writes
  fail, the call still answers the new id.
\<close>

theorem createPost_fan_out:
  assumes "userId \<noteq> []" "mediaUrl \<noteq> []" "cassandra_connected st" "mongo_connected st"
    and fresh: "\<forall>u. reelId \<notin> tl_reel_id ` set (timeline st u)"
  shows "(let st' = fst (createPost st no_faults reelId now (Some userId) caption (Some mediaUrl));
              entry = \<lparr>tl_created_at = now, tl_reel_id = reelId, tl_author_id = userId\<rparr>
          in snd (createPost st no_faults reelId now (Some userId) caption (Some mediaUrl)) = Inr reelId
           \<and> reels st' reelId =
               Some \<lparr>r_user_id = userId, r_caption = (case caption of None \<Rightarrow> [] | Some c \<Rightarrow> c),
                     r_media_url = mediaUrl, r_created_at = now\<rparr>
           \<and> \<lparr>ur_created_at = now, ur_reel_id = reelId\<rparr> \<in> set (user_reels st' userId)
           \<and> (\<forall>f\<in>set (resolve_followers st no_faults userId).
                 filter (\<lambda>x. tl_reel_id x = reelId) (timeline st' f) = [entry])
           \<and> (\<forall>u. u \<notin> set (resolve_followers st no_faults userId) \<longrightarrow> timeline st' u = timeline st u)
           \<and> (set (neo4j_followers st userId) = set (mongo_followers st userId) \<longrightarrow>
                (\<forall>f\<in>set (mongo_followers st userId).
                   filter (\<lambda>x. tl_reel_id x = reelId) (timeline st' f) = [entry])
              \<and> (\<forall>u. u \<notin> set (mongo_followers st userId) \<longrightarrow> timeline st' u = timeline st u)))
       \<and> (neo4j_connected st \<longrightarrow> neo4j_followers st userId \<noteq> [] \<longrightarrow>
            resolve_followers st no_faults userId = neo4j_followers st userId)
       \<and> (neo4j_connected st \<longrightarrow> neo4j_followers st userId = [] \<longrightarrow>
            resolve_followers st no_faults userId = mongo_followers st userId)
       \<and> (\<not> neo4j_connected st \<longrightarrow> resolve_followers st no_faults userId = mongo_followers st userId)
       \<and> (set (neo4j_followers st userId) = set (mongo_followers st userId) \<longrightarrow>
            set (resolve_followers st no_faults userId) = set (mongo_followers st userId))
       \<and> snd (createPost st fl reelId now (Some userId) caption (Some mediaUrl)) = Inr reelId
       \<and> insert_timeline (insert_timeline st u e) u e = insert_timeline st u e"
proof -
  let ?e = "\<lparr>tl_created_at = now, tl_reel_id = reelId, tl_author_id = userId\<rparr>"
  let ?st2 = "insert_user_reels
           (st\<lparr>reels := (reels st)(reelId \<mapsto>
                 \<lparr>r_user_id = userId, r_caption = (case caption of None \<Rightarrow> [] | Some c \<Rightarrow> c),
                  r_media_url = mediaUrl, r_created_at = now\<rparr>)\<rparr>)
           userId \<lparr>ur_created_at = now, ur_reel_id = reelId\<rparr>"
  let ?fs = "resolve_followers st no_faults userId"
  let ?st' = "fst (createPost st no_faults reelId now (Some userId) caption (Some mediaUrl))"
  have st': "?st' = redis_set (fan_out no_faults ?e ?st2 ?fs) (likes_key reelId) 0 None"
    using assms(1-4) by (rule createPost_state)
  have fr: "fan_out no_faults ?e ?st2 ?fs = ?st2\<lparr>timeline := timeline (fan_out no_faults ?e ?st2 ?fs)\<rparr>"
    by (rule fan_out_frame)
  have t2: "timeline ?st2 = timeline st" by (simp add: insert_user_reels_def)
  have tl: "timeline ?st' u = (if u \<in> set ?fs then cl_upsert tl_key ?e (timeline st u) else timeline st u)" for u
    by (simp add: st' timeline_fan_out t2 redis_set_def)
  have 1: "reels ?st' reelId =
               Some \<lparr>r_user_id = userId, r_caption = (case caption of None \<Rightarrow> [] | Some c \<Rightarrow> c),
                     r_media_url = mediaUrl, r_created_at = now\<rparr>"
    by (subst st', subst fr) (simp add: insert_user_reels_def redis_set_def)
  have "user_reels ?st' userId = cl_upsert ur_key \<lparr>ur_created_at = now, ur_reel_id = reelId\<rparr> (user_reels st userId)"
    by (subst st', subst fr) (simp add: insert_user_reels_def redis_set_def)
  then have 2: "\<lparr>ur_created_at = now, ur_reel_id = reelId\<rparr> \<in> set (user_reels ?st' userId)"
    by (simp add: cl_upsert_mem)
  have 3: "\<forall>f\<in>set ?fs. filter (\<lambda>x. tl_reel_id x = reelId) (timeline ?st' f) = [?e]"
  proof
    fix f assume f: "f \<in> set ?fs"
    have "\<forall>x\<in>set (timeline st f). tl_reel_id x \<noteq> tl_reel_id ?e"
      using fresh by auto
    then have "filter (\<lambda>x. tl_reel_id x = tl_reel_id ?e) (cl_upsert tl_key ?e (timeline st f)) = [?e]"
      by (rule filter_cl_upsert_fresh)
    with f show "filter (\<lambda>x. tl_reel_id x = reelId) (timeline ?st' f) = [?e]"
      by (simp add: tl)
  qed
  have 4: "\<forall>u. u \<notin> set ?fs \<longrightarrow> timeline ?st' u = timeline st u"
    by (simp add: tl)
  have 5: "snd (createPost st fl' reelId now (Some userId) caption (Some mediaUrl)) = Inr reelId" for fl'
    using assms(1-4) by (rule createPost_succeeds)
  have 6: "neo4j_connected st \<longrightarrow> neo4j_followers st userId = [] \<longrightarrow> ?fs = mongo_followers st userId"
    by (simp add: resolve_followers_def)
  have 7: "\<not> neo4j_connected st \<longrightarrow> ?fs = mongo_followers st userId"
    by (simp add: resolve_followers_def)
  have 10: "neo4j_connected st \<longrightarrow> neo4j_followers st userId \<noteq> [] \<longrightarrow>
            ?fs = neo4j_followers st userId"
    by (simp add: resolve_followers_def no_faults_def)
  have 8: "set (neo4j_followers st userId) = set (mongo_followers st userId) \<longrightarrow>
            set ?fs = set (mongo_followers st userId)"
    by (auto simp: resolve_followers_def Let_def)
  have 9: "set (neo4j_followers st userId) = set (mongo_followers st userId) \<longrightarrow>
                (\<forall>f\<in>set (mongo_followers st userId).
                   filter (\<lambda>x. tl_reel_id x = reelId) (timeline ?st' f) = [?e])
              \<and> (\<forall>u. u \<notin> set (mongo_followers st userId) \<longrightarrow> timeline ?st' u = timeline st u)"
    using 3 4 8 by simp
  show ?thesis
    unfolding Let_def using 1 2 3 4 5 6 7 8 9 10 insert_timeline_idem [of st u e] by blast
qed

text \<open>
  Witness for C3: after \<open>u1\<close> and \<open>u3\<close> followed \<open>u2\<close> (both backends hold both edges,
  both partitions were backfilled with \<open>r3, r2, r1\<close>), the post \<open>r9\<close> of \<open>u2\<close> at time 9
  lands once, on top, in the partitions of \<open>u1\<close> and \<open>u3\<close>, and not in the author's.
\<close>

theorem createPost_fan_out_witness:
  "''u2'' \<noteq> [] \<and> ''m9'' \<noteq> [] \<and> cassandra_connected fanout_state \<and> mongo_connected fanout_state
   \<and> (\<forall>u. ''r9'' \<notin> tl_reel_id ` set (timeline fanout_state u))
   \<and> neo4j_connected fanout_state
   \<and> resolve_followers fanout_state no_faults ''u2'' = [''u1'', ''u3'']
   \<and> neo4j_followers fanout_state ''u2'' = [''u1'', ''u3'']
   \<and> mongo_followers fanout_state ''u2'' = [''u1'', ''u3'']
   \<and> snd (createPost fanout_state no_faults ''r9'' 9 (Some ''u2'') None (Some ''m9'')) = Inr ''r9''
   \<and> (let st' = fst (createPost fanout_state no_faults ''r9'' 9 (Some ''u2'') None (Some ''m9''))
       in map tl_reel_id (timeline st' ''u1'') = [''r9'', ''r3'', ''r2'', ''r1'']
        \<and> map tl_reel_id (timeline st' ''u3'') = [''r9'', ''r3'', ''r2'', ''r1'']
        \<and> timeline st' ''u2'' = []
        \<and> map ur_reel_id (user_reels st' ''u2'') = [''r9'', ''r3'', ''r2'', ''r1''])"
proof -
  let ?rows = "[\<lparr>tl_created_at = 3, tl_reel_id = ''r3'', tl_author_id = ''u2''\<rparr>,
                \<lparr>tl_created_at = 2, tl_reel_id = ''r2'', tl_author_id = ''u2''\<rparr>,
                \<lparr>tl_created_at = 1, tl_reel_id = ''r1'', tl_author_id = ''u2''\<rparr>]"
  have tl: "timeline fanout_state = (\<lambda>_. [])(''u1'' := ?rows, ''u3'' := ?rows)"
    by (simp add: fanout_state_def followed_state_def eval_defs follow_eval)
  have c: "cassandra_connected fanout_state" and m: "mongo_connected fanout_state"
    by (simp_all add: fanout_state_def followed_state_def eval_defs follow_eval)
  have n: "neo4j_connected fanout_state"
    by (simp add: fanout_state_def followed_state_def eval_defs follow_eval)
  have nf: "neo4j_followers fanout_state ''u2'' = [''u1'', ''u3'']"
    and mf: "mongo_followers fanout_state ''u2'' = [''u1'', ''u3'']"
    by (simp_all add: fanout_state_def followed_state_def eval_defs follow_eval)
  have fresh: "\<forall>u. ''r9'' \<notin> tl_reel_id ` set (timeline fanout_state u)"
    by (auto simp: tl)
  have u: "''u2'' \<noteq> []" and mm: "''m9'' \<noteq> []" by simp_all
  have ok: "snd (createPost fanout_state no_faults ''r9'' 9 (Some ''u2'') None (Some ''m9'')) = Inr ''r9''"
    using createPost_fan_out [OF u mm c m fresh, of 9 None no_faults]
    by (simp add: Let_def)
  have run: "let st' = fst (createPost fanout_state no_faults ''r9'' 9 (Some ''u2'') None (Some ''m9''))
       in map tl_reel_id (timeline st' ''u1'') = [''r9'', ''r3'', ''r2'', ''r1'']
        \<and> map tl_reel_id (timeline st' ''u3'') = [''r9'', ''r3'', ''r2'', ''r1'']
        \<and> timeline st' ''u2'' = []
        \<and> map ur_reel_id (user_reels st' ''u2'') = [''r9'', ''r3'', ''r2'', ''r1'']"
    by (simp add: fanout_state_def followed_state_def eval_defs follow_eval createPost_def
          resolve_followers_def insert_user_reels_def redis_set_def)
  have ne: "neo4j_followers fanout_state ''u2'' \<noteq> []" by (simp add: nf)
  have rf: "resolve_followers fanout_state no_faults ''u2'' = [''u1'', ''u3'']"
    using createPost_fan_out [OF u mm c m fresh, of 9 None no_faults] n ne nf
    by (simp add: Let_def)
  from u mm c m n fresh nf mf rf ok run show ?thesis by blast
qed

text \<open>
  Counterexample to C3 as stated (one entry in the partition of each follower when all
  backends are healthy). In the reached state \<open>unmatched_state\<close> every store is
  connected and \<open>u2\<close> has the followers \<open>u1\<close> and \<open>u3\<close> (the \<open>follows\<close> collection, and the
  \<open>followers\<close> route); the graph store holds the edge of \<open>u1\<close> only. The post \<open>r9\<close> of
  \<open>u2\<close> is created without any failing write and answered with its id; the route
  takes the graph store's non-empty list, so the partition of \<open>u1\<close> gets the entry and
  the partition of the follower \<open>u3\<close> gets none.
\<close>

theorem createPost_omits_follower_counterexample:
  "reachable unmatched_state
   \<and> cassandra_connected unmatched_state \<and> mongo_connected unmatched_state
   \<and> neo4j_connected unmatched_state
   \<and> mongo_followers unmatched_state ''u2'' = [''u1'', ''u3'']
   \<and> listed_ids (followers unmatched_state ''u2'') = [''u1'', ''u3'']
   \<and> neo4j_followers unmatched_state ''u2'' = [''u1'']
   \<and> (\<forall>u. timeline unmatched_state u = [])
   \<and> snd (createPost unmatched_state no_faults ''r9'' 9 (Some ''u2'') None (Some ''m9'')) = Inr ''r9''
   \<and> timeline (fst (createPost unmatched_state no_faults ''r9'' 9 (Some ''u2'') None (Some ''m9''))) ''u1''
       = [\<lparr>tl_created_at = 9, tl_reel_id = ''r9'', tl_author_id = ''u2''\<rparr>]
   \<and> timeline (fst (createPost unmatched_state no_faults ''r9'' 9 (Some ''u2'') None (Some ''m9''))) ''u3''
       = []"
proof -
  have r: "reachable unmatched_state"
    unfolding unmatched_state_def
    by (intro reachable_follow reachable_profiles reachable_initial)
  have e: "cassandra_connected unmatched_state \<and> mongo_connected unmatched_state
   \<and> neo4j_connected unmatched_state
   \<and> mongo_followers unmatched_state ''u2'' = [''u1'', ''u3'']
   \<and> listed_ids (followers unmatched_state ''u2'') = [''u1'', ''u3'']
   \<and> neo4j_followers unmatched_state ''u2'' = [''u1'']
   \<and> (\<forall>u. timeline unmatched_state u = [])"
    by (simp add: unmatched_state_def eval_defs follow_eval followers_def users_in_def
          listed_ids_def or_unknown_def)
  have p: "snd (createPost unmatched_state no_faults ''r9'' 9 (Some ''u2'') None (Some ''m9'')) = Inr ''r9''
   \<and> timeline (fst (createPost unmatched_state no_faults ''r9'' 9 (Some ''u2'') None (Some ''m9''))) ''u1''
       = [\<lparr>tl_created_at = 9, tl_reel_id = ''r9'', tl_author_id = ''u2''\<rparr>]
   \<and> timeline (fst (createPost unmatched_state no_faults ''r9'' 9 (Some ''u2'') None (Some ''m9''))) ''u3''
       = []"
    by (simp add: unmatched_state_def eval_defs follow_eval createPost_def
          resolve_followers_def insert_user_reels_def redis_set_def)
  from r e p show ?thesis by blast
qed
section \<open>Validation, unfollow\<close>

text \<open>
  Claim C9, as the code has it. A follow request without \<open>followerId\<close>, a self-follow
  request, and a post-creation request without \<open>userId\<close> or \<open>mediaUrl\<close> are answered
  400 with the state unchanged: the checks come before any store is touched. They are
  not the only failures a caller sees: a valid follow is answered 500 when Cassandra or
  Mongo is not connected or the write to \<open>follows\<close> fails, and a valid post creation is
  answered 500 when Cassandra or Mongo is not connected; otherwise both succeed.
\<close>

theorem invalid_input_rejected_before_any_write:
  "(falsy followerId \<longrightarrow>
      follow st fl now userId followerId = (st, Inl (BadRequest ''followerId is required'')))
   \<and> (userId \<noteq> [] \<longrightarrow>
      follow st fl now userId (Some userId) = (st, Inl (BadRequest ''Cannot follow yourself'')))
   \<and> (falsy author \<or> falsy mediaUrl \<longrightarrow>
      createPost st fl reelId now author caption mediaUrl =
        (st, Inl (BadRequest ''userId and mediaUrl are required'')))
   \<and> (\<not> falsy followerId \<and> followerId \<noteq> Some userId \<longrightarrow>
        snd (follow st fl now userId followerId) =
          (if \<not> cassandra_connected st \<or> \<not> mongo_connected st
           then Inl (ServerError ''Failed to follow user'')
           else if follows_write_fails fl
           then Inl (ServerError ''Failed to create follow relationship'')
           else Inr (FollowResult ''Followed successfully'' True)))
   \<and> (\<not> falsy author \<and> \<not> falsy mediaUrl \<longrightarrow>
        snd (createPost st fl reelId now author caption mediaUrl) =
          (if \<not> cassandra_connected st \<or> \<not> mongo_connected st
           then Inl (ServerError ''Failed to create reel'')
           else Inr reelId))"
  by (auto simp: falsy_def follow_def createPost_def Let_def insert_user_reels_def
        split: option.splits)

text \<open>Witness for C9: the three rejections and the two successes on the scenario.\<close>

theorem invalid_input_rejected_witness:
  "falsy None \<and> falsy (Some '''')
   \<and> follow scenario no_faults 7 ''u2'' None = (scenario, Inl (BadRequest ''followerId is required''))
   \<and> ''u2'' \<noteq> []
   \<and> follow scenario no_faults 7 ''u2'' (Some ''u2'') = (scenario, Inl (BadRequest ''Cannot follow yourself''))
   \<and> createPost scenario no_faults ''r9'' 7 (Some ''u2'') (Some ''hi'') (Some '''') =
        (scenario, Inl (BadRequest ''userId and mediaUrl are required''))
   \<and> \<not> falsy (Some ''u1'') \<and> Some ''u1'' \<noteq> Some ''u2''
   \<and> snd (follow scenario no_faults 7 ''u2'' (Some ''u1'')) = Inr (FollowResult ''Followed successfully'' True)
   \<and> snd (createPost scenario no_faults ''r9'' 7 (Some ''u2'') None (Some ''m9'')) = Inr ''r9''"
  using invalid_input_rejected_before_any_write [where followerId = None and st = scenario
      and fl = no_faults and now = 7 and userId = "''u2''" and author = "Some ''u2''"
      and mediaUrl = "Some []" and reelId = "''r9''" and caption = "Some ''hi''"]
    invalid_input_rejected_before_any_write [where followerId = "Some ''u1''" and st = scenario
      and fl = no_faults and now = 7 and userId = "''u2''" and author = "Some ''u2''"
      and mediaUrl = "Some ''m9''" and reelId = "''r9''" and caption = None]
  by (simp add: falsy_def scenario_def initial_state_def no_faults_def)

text \<open>
  Counterexample to C9 as stated (validation errors as the only caller-visible
  failures): valid requests answered 500. With Cassandra not connected a follow of
  \<open>u2\<close> by \<open>u1\<close> fails; so it does when the write to \<open>follows\<close> fails; and a valid post
  creation with Mongo not connected fails after the post has been stored.
\<close>

theorem valid_request_fails_counterexample:
  "\<not> falsy (Some ''u1'') \<and> ''u1'' \<noteq> ''u2''
   \<and> follow (scenario\<lparr>cassandra_connected := False\<rparr>) no_faults 7 ''u2'' (Some ''u1'') =
        (scenario\<lparr>cassandra_connected := False\<rparr>, Inl (ServerError ''Failed to follow user''))
   \<and> snd (follow scenario (no_faults\<lparr>follows_write_fails := True\<rparr>) 7 ''u2'' (Some ''u1'')) =
        Inl (ServerError ''Failed to create follow relationship'')
   \<and> snd (createPost (scenario\<lparr>mongo_connected := False\<rparr>) no_faults ''r9'' 9 (Some ''u2'') None (Some ''m9'')) =
        Inl (ServerError ''Failed to create reel'')
   \<and> reels (fst (createPost (scenario\<lparr>mongo_connected := False\<rparr>) no_faults ''r9'' 9 (Some ''u2'') None (Some ''m9''))) ''r9''
        = Some \<lparr>r_user_id = ''u2'', r_caption = [], r_media_url = ''m9'', r_created_at = 9\<rparr>"
  by (simp add: falsy_def follow_def createPost_def Let_def insert_user_reels_def scenario_def
        initial_state_def no_faults_def)

lemma delete_one_unique:
  "distinct (map k xs) \<Longrightarrow> k0 \<notin> k ` set (delete_one (\<lambda>d. k d = k0) xs)"
  by (induction xs) auto

lemma upsert_follow_map:
  "map edge_of (upsert_follow a b now ds) =
     (if (a, b) \<in> edge_of ` set ds then map edge_of ds else map edge_of ds @ [(a, b)])"
  by (induction ds) (auto simp: edge_of_def)

text \<open>
  Claim C10. Unfollow never changes a Cassandra table: every timeline partition, every
  index and \<open>reels\<close> stay as they were. A successful call removes the first matching
  document from \<open>follows\<close>, which removes the edge from the replica when it holds one
  document per edge (as the upsert of follow keeps it), and removes the relationship
  from the graph store when that is connected and the query succeeds. The follower's
  feed is read from the unchanged partition, so it still shows the rows of the
  unfollowed user.
\<close>

theorem unfollow_leaves_timelines:
  "timeline (fst (unfollow st fl userId followerId)) = timeline st
   \<and> user_reels (fst (unfollow st fl userId followerId)) = user_reels st
   \<and> reels (fst (unfollow st fl userId followerId)) = reels st
   \<and> (fid \<noteq> [] \<and> mongo_connected st \<and> \<not> follows_write_fails fl \<longrightarrow>
        snd (unfollow st fl userId (Some fid)) = Inr (FollowResult ''Unfollowed successfully'' False)
      \<and> follows (fst (unfollow st fl userId (Some fid))) =
          delete_one (\<lambda>d. f_followerId d = fid \<and> f_followedId d = userId) (follows st)
      \<and> (distinct (map edge_of (follows st)) \<longrightarrow>
           (fid, userId) \<notin> edge_of ` set (follows (fst (unfollow st fl userId (Some fid)))))
      \<and> (neo4j_connected st \<and> \<not> neo4j_query_fails fl \<longrightarrow>
           (fid, userId) \<notin> set (neo4j_follows (fst (unfollow st fl userId (Some fid))))))
   \<and> (0 < limit \<and> timeline st fid \<noteq> [] \<longrightarrow>
        snd (assemble (fst (unfollow st fl userId (Some fid))) fl' fid limit) =
          map ref_of_timeline (take limit (timeline st fid)))"
proof -
  have t: "timeline (fst (unfollow st fl userId f)) = timeline st" for f
    by (auto simp: unfollow_def Let_def neo4j_delete_follows_def split: option.splits)
  have u: "user_reels (fst (unfollow st fl userId followerId)) = user_reels st"
    by (auto simp: unfollow_def Let_def neo4j_delete_follows_def split: option.splits)
  have r: "reels (fst (unfollow st fl userId followerId)) = reels st"
    by (auto simp: unfollow_def Let_def neo4j_delete_follows_def split: option.splits)
  have e: "(\<lambda>d. f_followerId d = fid \<and> f_followedId d = userId) = (\<lambda>d. edge_of d = (fid, userId))"
    by (auto simp: edge_of_def)
  have d: "distinct (map edge_of (follows st)) \<Longrightarrow>
      (fid, userId) \<notin> edge_of ` set (delete_one (\<lambda>d. f_followerId d = fid \<and> f_followedId d = userId) (follows st))"
    unfolding e by (rule delete_one_unique)
  have a: "0 < limit \<Longrightarrow> timeline st fid \<noteq> [] \<Longrightarrow>
        snd (assemble (fst (unfollow st fl userId (Some fid))) fl' fid limit) =
          map ref_of_timeline (take limit (timeline st fid))"
    by (simp add: assemble_nonempty t)
  show ?thesis
    using t u r d a
    by (auto simp: unfollow_def Let_def neo4j_delete_follows_def)
qed

section \<open>Followers and following\<close>

text \<open>
  Witness for C10: after \<open>u1\<close> followed \<open>u2\<close> (both backends hold the edge, the
  partition of \<open>u1\<close> was backfilled), the unfollow empties both backends and the feed
  of \<open>u1\<close> is still \<open>r3, r2, r1\<close> by \<open>u2\<close>.
\<close>

theorem unfollow_leaves_timelines_witness:
  "''u1'' \<noteq> [] \<and> mongo_connected followed_state \<and> \<not> follows_write_fails no_faults
   \<and> distinct (map edge_of (follows followed_state))
   \<and> neo4j_connected followed_state \<and> \<not> neo4j_query_fails no_faults
   \<and> 0 < (10::nat) \<and> timeline followed_state ''u1'' \<noteq> []
   \<and> map edge_of (follows followed_state) = [(''u1'', ''u2'')]
   \<and> neo4j_follows followed_state = [(''u1'', ''u2'')]
   \<and> follows (fst (unfollow followed_state no_faults ''u2'' (Some ''u1''))) = []
   \<and> neo4j_follows (fst (unfollow followed_state no_faults ''u2'' (Some ''u1''))) = []
   \<and> map tl_reel_id (timeline (fst (unfollow followed_state no_faults ''u2'' (Some ''u1''))) ''u1'')
        = [''r3'', ''r2'', ''r1'']
   \<and> snd (assemble (fst (unfollow followed_state no_faults ''u2'' (Some ''u1''))) no_faults ''u1'' 10) =
       [\<lparr>ref_reelId = ''r3'', ref_authorId = ''u2'', ref_createdAt = 3\<rparr>,
        \<lparr>ref_reelId = ''r2'', ref_authorId = ''u2'', ref_createdAt = 2\<rparr>,
        \<lparr>ref_reelId = ''r1'', ref_authorId = ''u2'', ref_createdAt = 1\<rparr>]"
  using unfollow_leaves_timelines [where st = followed_state and fl = no_faults
      and userId = "''u2''" and followerId = "Some ''u1''" and fid = "''u1''" and limit = 10
      and fl' = no_faults]
  by (simp add: followed_state_def eval_defs follow_eval)

lemma users_in_ids:
  "v_id ` set (users_in st ids) = set ids \<inter> u_id ` set (users st)"
proof (cases "ids = []")
  case True
  then show ?thesis by (simp add: users_in_def)
next
  case False
  have "v_id ` set (users_in st ids) = u_id ` {u \<in> set (users st). u_id u \<in> set ids}"
    using False by (simp add: users_in_def image_image)
  then show ?thesis by auto
qed

text \<open>
  Claim C6, as the code has it. \<open>followers\<close> and \<open>following\<close> never consult the graph
  store: their answers do not depend on whether it is connected nor on what it holds,
  so with the backend disabled the results are identical. With Mongo connected the
  answer lists the profiles of exactly the users that the \<open>follows\<close> collection gives
  as followers (as followed), found by scan and filter.
\<close>

theorem followers_read_replica_only:
  "followers (st\<lparr>neo4j_connected := c, neo4j_users := ns, neo4j_follows := es\<rparr>) userId
     = followers st userId
   \<and> following (st\<lparr>neo4j_connected := c, neo4j_users := ns, neo4j_follows := es\<rparr>) userId
     = following st userId
   \<and> (mongo_connected st \<longrightarrow>
        (\<exists>vs. followers st userId = Inr vs
           \<and> v_id ` set vs = set (mongo_followers st userId) \<inter> u_id ` set (users st))
      \<and> (\<exists>vs. following st userId = Inr vs
           \<and> v_id ` set vs = set (mongo_following st userId) \<inter> u_id ` set (users st)))
   \<and> set (mongo_followers st userId) = {a. (a, userId) \<in> edge_of ` set (follows st)}
   \<and> set (mongo_following st userId) = {b. (userId, b) \<in> edge_of ` set (follows st)}"
proof -
  have 1: "set (mongo_followers st userId) = {a. (a, userId) \<in> edge_of ` set (follows st)}"
    by (auto simp: mongo_followers_def edge_of_def image_iff)
  have 2: "set (mongo_following st userId) = {b. (userId, b) \<in> edge_of ` set (follows st)}"
    by (auto simp: mongo_following_def edge_of_def image_iff)
  have 3: "followers (st\<lparr>neo4j_connected := c, neo4j_users := ns, neo4j_follows := es\<rparr>) userId
     = followers st userId"
    by (simp add: followers_def users_in_def mongo_followers_def)
  have 4: "following (st\<lparr>neo4j_connected := c, neo4j_users := ns, neo4j_follows := es\<rparr>) userId
     = following st userId"
    by (simp add: following_def users_in_def mongo_following_def)
  have 5: "mongo_connected st \<longrightarrow>
        (\<exists>vs. followers st userId = Inr vs
           \<and> v_id ` set vs = set (mongo_followers st userId) \<inter> u_id ` set (users st))
      \<and> (\<exists>vs. following st userId = Inr vs
           \<and> v_id ` set vs = set (mongo_following st userId) \<inter> u_id ` set (users st))"
    by (simp add: followers_def following_def users_in_ids)
  from 1 2 3 4 5 show ?thesis by blast
qed

text \<open>Witness for C6 on the state where the backends differ.\<close>

theorem followers_read_replica_only_witness:
  "mongo_connected diverged \<and> neo4j_connected diverged
   \<and> map edge_of (follows diverged) = [(''u1'', ''u2''), (''u3'', ''u2'')]
   \<and> neo4j_follows diverged = [(''u1'', ''u2'')]
   \<and> followers diverged ''u2'' =
        Inr [\<lparr>v_id = ''u1'', v_username = ''ann''\<rparr>, \<lparr>v_id = ''u3'', v_username = ''cy''\<rparr>]
   \<and> followers (diverged\<lparr>neo4j_connected := False, neo4j_users := [], neo4j_follows := []\<rparr>) ''u2'' =
        Inr [\<lparr>v_id = ''u1'', v_username = ''ann''\<rparr>, \<lparr>v_id = ''u3'', v_username = ''cy''\<rparr>]
   \<and> following diverged ''u1'' = Inr [\<lparr>v_id = ''u2'', v_username = ''bob''\<rparr>]"
  using followers_read_replica_only [where st = diverged and c = False and ns = "[]" and es = "[]"
      and userId = "''u2''"]
  by (simp add: diverged_def eval_defs follow_eval followers_def following_def users_in_def
        or_unknown_def)

text \<open>
  Counterexample to C6 as stated (the accelerated backend preferred when available):
  with the graph store connected and holding only the edge of \<open>u1\<close>, \<open>followers\<close> of
  \<open>u2\<close> answers \<open>u1\<close> and \<open>u3\<close>, the replica's set, where the preferred backend gives
  \<open>u1\<close> alone; \<open>following\<close> of \<open>u3\<close> answers \<open>u2\<close>, where it gives nothing.
\<close>

theorem followers_prefer_graph_counterexample:
  "neo4j_connected diverged
   \<and> followers diverged ''u2'' =
        Inr [\<lparr>v_id = ''u1'', v_username = ''ann''\<rparr>, \<lparr>v_id = ''u3'', v_username = ''cy''\<rparr>]
   \<and> followers_spec diverged ''u2'' = [''u1'']
   \<and> set (listed_ids (followers diverged ''u2'')) \<noteq> set (followers_spec diverged ''u2'')
   \<and> following diverged ''u3'' = Inr [\<lparr>v_id = ''u2'', v_username = ''bob''\<rparr>]
   \<and> following_spec diverged ''u3'' = []
   \<and> set (listed_ids (following diverged ''u3'')) \<noteq> set (following_spec diverged ''u3'')"
  by (simp add: diverged_def eval_defs follow_eval followers_def following_def users_in_def
        or_unknown_def followers_spec_def following_spec_def listed_ids_def)

section \<open>Suggestions\<close>

lemma map_of_bump: "map_of (bump k kvs) = (map_of kvs)(k \<mapsto> Suc (count_in kvs k))"
  by (induction kvs) (auto simp: count_in_def fun_eq_iff)

lemma count_in_bump: "count_in (bump k kvs) t = count_in kvs t + (if t = k then 1 else 0)"
  by (simp add: count_in_def map_of_bump)

lemma keys_bump:
  "map fst (bump k kvs) = (if k \<in> fst ` set kvs then map fst kvs else map fst kvs @ [k])"
proof (induction kvs)
  case Nil
  show ?case by simp
next
  case (Cons kv kvs)
  obtain k' c where kv: "kv = (k', c)" by (cases kv)
  show ?case
  proof (cases "k = k'")
    case True
    then show ?thesis by (simp add: kv)
  next
    case False
    then show ?thesis using Cons.IH by (simp add: kv)
  qed
qed

lemma distinct_bump: "distinct (map fst kvs) \<Longrightarrow> distinct (map fst (bump k kvs))"
  by (simp add: keys_bump)

lemma set_keys_bump: "fst ` set (bump k kvs) = insert k (fst ` set kvs)"
proof -
  have "set (map fst (bump k kvs)) = insert k (set (map fst kvs))"
    unfolding keys_bump by auto
  then show ?thesis by simp
qed

text \<open>The counter object: what a defined \<open>object_bump\<close> does, and when it is defined.\<close>

lemma object_bump_cases:
  "object_bump k counts = Some r \<Longrightarrow>
   (k = ''__proto__'' \<and> r = counts) \<or> (k \<noteq> ''__proto__'' \<and> r = bump k counts)"
  by (auto simp: object_bump_def split: if_splits)

lemma object_bump_distinct:
  assumes "object_bump k counts = Some r" "distinct (map fst counts)"
  shows "distinct (map fst r)"
  using object_bump_cases [OF assms(1)] assms(2) distinct_bump [of counts k] by auto

lemma object_bump_keys:
  assumes "object_bump k counts = Some r"
  shows "fst ` set r = fst ` set counts \<union> ({k} - {''__proto__''})"
proof -
  from object_bump_cases [OF assms] show ?thesis
  proof
    assume "k = ''__proto__'' \<and> r = counts"
    then show ?thesis by simp
  next
    assume a: "k \<noteq> ''__proto__'' \<and> r = bump k counts"
    then have "fst ` set r = insert k (fst ` set counts)"
      by (simp only: set_keys_bump)
    with a show ?thesis by auto
  qed
qed

lemma object_bump_count:
  assumes "object_bump k counts = Some r"
  shows "count_in r t = count_in counts t + (if t = k \<and> t \<noteq> ''__proto__'' then 1 else 0)"
proof -
  from object_bump_cases [OF assms] show ?thesis
  proof
    assume "k = ''__proto__'' \<and> r = counts"
    then show ?thesis by simp
  next
    assume a: "k \<noteq> ''__proto__'' \<and> r = bump k counts"
    then have "count_in r t = count_in counts t + (if t = k then 1 else 0)"
      by (simp only: count_in_bump)
    with a show ?thesis by auto
  qed
qed

lemma object_bump_defined:
  "k \<notin> set inherited_function_keys \<Longrightarrow> \<exists>r. object_bump k counts = Some r"
  by (simp add: object_bump_def)

lemma distinct_count_suggestions:
  "count_suggestions u fids counts ds = Some r \<Longrightarrow> distinct (map fst counts) \<Longrightarrow>
   distinct (map fst r)"
proof (induction ds arbitrary: counts)
  case Nil
  then show ?case by simp
next
  case (Cons d ds)
  show ?case
  proof (cases "f_followedId d \<noteq> u \<and> f_followedId d \<notin> set fids")
    case True
    with Cons.prems(1) obtain c' where b: "object_bump (f_followedId d) counts = Some c'"
      and r: "count_suggestions u fids c' ds = Some r"
      by (auto split: option.splits)
    from object_bump_distinct [OF b Cons.prems(2)] have "distinct (map fst c')" .
    with r show ?thesis by (rule Cons.IH)
  next
    case False
    with Cons.prems(1) have "count_suggestions u fids counts ds = Some r" by auto
    then show ?thesis using Cons.prems(2) by (rule Cons.IH)
  qed
qed

lemma keys_count_suggestions:
  "count_suggestions u fids counts ds = Some r \<Longrightarrow>
   fst ` set r =
     fst ` set counts \<union> (f_followedId ` set ds - set fids - {u} - {''__proto__''})"
proof (induction ds arbitrary: counts)
  case Nil
  then show ?case by simp
next
  case (Cons d ds)
  show ?case
  proof (cases "f_followedId d \<noteq> u \<and> f_followedId d \<notin> set fids")
    case True
    with Cons.prems obtain c' where b: "object_bump (f_followedId d) counts = Some c'"
      and r: "count_suggestions u fids c' ds = Some r"
      by (auto split: option.splits)
    from Cons.IH [OF r] object_bump_keys [OF b] True show ?thesis by auto
  next
    case False
    with Cons.prems have "count_suggestions u fids counts ds = Some r" by auto
    from Cons.IH [OF this] False show ?thesis by auto
  qed
qed

lemma count_in_count_suggestions:
  "count_suggestions u fids counts ds = Some r \<Longrightarrow>
   count_in r t =
     count_in counts t
     + (if t \<noteq> u \<and> t \<notin> set fids \<and> t \<noteq> ''__proto__''
        then length (filter (\<lambda>d. f_followedId d = t) ds) else 0)"
proof (induction ds arbitrary: counts)
  case Nil
  then show ?case by simp
next
  case (Cons d ds)
  show ?case
  proof (cases "f_followedId d \<noteq> u \<and> f_followedId d \<notin> set fids")
    case True
    with Cons.prems obtain c' where b: "object_bump (f_followedId d) counts = Some c'"
      and r: "count_suggestions u fids c' ds = Some r"
      by (auto split: option.splits)
    from Cons.IH [OF r] object_bump_count [OF b, of t] True show ?thesis by auto
  next
    case False
    with Cons.prems have "count_suggestions u fids counts ds = Some r" by auto
    from Cons.IH [OF this] False show ?thesis by auto
  qed
qed

lemma count_suggestions_defined:
  "\<forall>d\<in>set ds. f_followedId d \<notin> set inherited_function_keys \<Longrightarrow>
   \<exists>r. count_suggestions u fids counts ds = Some r"
proof (induction ds arbitrary: counts)
  case Nil
  show ?case by simp
next
  case (Cons d ds)
  from Cons.prems obtain c' where b: "object_bump (f_followedId d) counts = Some c'"
    using object_bump_defined [of "f_followedId d" counts] by auto
  from Cons.prems have "\<forall>d\<in>set ds. f_followedId d \<notin> set inherited_function_keys" by simp
  from Cons.IH [OF this, of c'] Cons.IH [OF this, of counts] b show ?case by auto
qed

lemma count_in_entry:
  "distinct (map fst kvs) \<Longrightarrow> (k, c) \<in> set kvs \<Longrightarrow> count_in kvs k = c"
  by (simp add: count_in_def)

text \<open>\<open>Object.entries\<close> and the sort only permute the pairs.\<close>

lemma set_object_entries: "set (object_entries kvs) = set kvs"
  by (auto simp: object_entries_def)

lemma length_object_entries: "length (object_entries kvs) = length kvs"
  by (simp add: object_entries_def sum_length_filter_compl)

lemma distinct_object_entries:
  assumes "distinct (map fst kvs)"
  shows "distinct (map fst (object_entries kvs))"
proof -
  from assms have d: "distinct kvs" and i: "inj_on fst (set kvs)"
    by (simp_all add: distinct_map)
  have "distinct (object_entries kvs)"
    using d by (auto simp: object_entries_def)
  moreover have "inj_on fst (set (object_entries kvs))"
    using i by (simp add: set_object_entries)
  ultimately show ?thesis by (simp add: distinct_map)
qed

lemma set_sort_by_count: "set (sort_by_count_desc kvs) = set kvs"
  by (simp add: sort_by_count_desc_def)

lemma length_sort_by_count: "length (sort_by_count_desc kvs) = length kvs"
  by (simp add: sort_by_count_desc_def)

lemma distinct_sort_by_count:
  "distinct (map fst kvs) \<Longrightarrow> distinct (map fst (sort_by_count_desc kvs))"
  by (simp add: distinct_map sort_by_count_desc_def)

lemma sorted_sort_by_count: "sorted_wrt (\<lambda>a b. snd b \<le> snd a) (sort_by_count_desc kvs)"
proof -
  have "sorted (map (\<lambda>kv. - int (snd kv)) (sort_by_count_desc kvs))"
    unfolding sort_by_count_desc_def by (rule sorted_sort_key)
  then show ?thesis by (simp add: sorted_map)
qed

lemma js_slice0_take: "0 \<le> n \<Longrightarrow> js_slice0 xs n = take (nat n) xs"
  by (simp add: js_slice0_def)

lemma top_of_sorted:
  assumes "sorted_wrt R xs" "a \<in> set (take n xs)" "b \<in> set xs" "b \<notin> set (take n xs)"
  shows "R a b"
proof -
  have "sorted_wrt R (take n xs @ drop n xs)" using assms(1) by simp
  then have "\<forall>x\<in>set (take n xs). \<forall>y\<in>set (drop n xs). R x y"
    by (simp only: sorted_wrt_append) blast
  moreover have "b \<in> set (drop n xs)"
    using assms(3,4) by (metis Un_iff append_take_drop_id set_append)
  ultimately show ?thesis using assms(2) by blast
qed

lemma count_in_Nil: "count_in [] t = 0"
  by (simp add: count_in_def)

lemma mongo_ranked_take:
  "0 \<le> limit \<Longrightarrow> mongo_following st userId \<noteq> [] \<Longrightarrow>
   mongo_ranked st userId limit = map_option (take (nat limit)) (all_counts st userId)"
  by (simp add: mongo_ranked_def all_counts_def js_slice0_take option.map_comp comp_def)

lemma mongo_ranked_none:
  "mongo_following st userId = [] \<Longrightarrow> mongo_ranked st userId limit = Some []"
  by (simp add: mongo_ranked_def)

lemma all_counts_defined:
  "\<forall>d\<in>set (follows st). f_followedId d \<notin> set inherited_function_keys \<Longrightarrow>
   \<exists>a. all_counts st userId = Some a"
proof -
  assume "\<forall>d\<in>set (follows st). f_followedId d \<notin> set inherited_function_keys"
  then have "\<forall>d\<in>set (friends_follows st userId). f_followedId d \<notin> set inherited_function_keys"
    by (simp add: friends_follows_def)
  from count_suggestions_defined [OF this, of userId "mongo_following st userId" "[]"]
  show ?thesis by (auto simp: all_counts_def)
qed

lemma keys_all_counts:
  assumes "all_counts st userId = Some a"
  shows "fst ` set a =
     f_followedId ` set (friends_follows st userId) - set (mongo_following st userId) - {userId}
       - {''__proto__''}"
proof -
  from assms obtain cs where
    cs: "count_suggestions userId (mongo_following st userId) [] (friends_follows st userId) = Some cs"
    and a: "a = sort_by_count_desc (object_entries cs)"
    by (auto simp: all_counts_def)
  have "set a = set cs"
    by (simp add: a set_sort_by_count set_object_entries)
  with keys_count_suggestions [OF cs] show ?thesis by simp
qed

lemma distinct_all_counts: "all_counts st userId = Some a \<Longrightarrow> distinct (map fst a)"
proof -
  assume "all_counts st userId = Some a"
  then obtain cs where
    cs: "count_suggestions userId (mongo_following st userId) [] (friends_follows st userId) = Some cs"
    and a: "a = sort_by_count_desc (object_entries cs)"
    by (auto simp: all_counts_def)
  have "distinct (map fst cs)"
    using cs by (rule distinct_count_suggestions) simp
  then show ?thesis
    unfolding a by (intro distinct_sort_by_count distinct_object_entries)
qed

lemma value_all_counts:
  assumes "all_counts st userId = Some a" "s \<in> set a"
  shows "snd s = length (filter (\<lambda>d. f_followedId d = fst s) (friends_follows st userId))"
proof -
  from assms(1) obtain cs where
    cs: "count_suggestions userId (mongo_following st userId) [] (friends_follows st userId) = Some cs"
    and a: "a = sort_by_count_desc (object_entries cs)"
    by (auto simp: all_counts_def)
  have d: "distinct (map fst cs)"
    using cs by (rule distinct_count_suggestions) simp
  have m: "(fst s, snd s) \<in> set cs"
    using assms(2) by (simp add: a set_sort_by_count set_object_entries)
  then have "fst s \<in> fst ` set cs" by (metis fst_conv image_eqI)
  then have ok: "fst s \<noteq> userId \<and> fst s \<notin> set (mongo_following st userId)
      \<and> fst s \<noteq> ''__proto__''"
    using keys_count_suggestions [OF cs] by auto
  have "snd s = count_in cs (fst s)"
    using count_in_entry [OF d m] by simp
  also have "\<dots> = length (filter (\<lambda>d. f_followedId d = fst s) (friends_follows st userId))"
    using ok count_in_count_suggestions [OF cs, of "fst s"] by (simp add: count_in_Nil)
  finally show ?thesis .
qed

lemma length_all_counts:
  assumes "all_counts st userId = Some a"
  shows "length a =
     card (f_followedId ` set (friends_follows st userId) - set (mongo_following st userId) - {userId}
             - {''__proto__''})"
proof -
  have "length a = length (map fst a)" by simp
  also have "\<dots> = card (set (map fst a))"
    using distinct_all_counts [OF assms] by (rule distinct_card [symmetric])
  also have "\<dots> = card (f_followedId ` set (friends_follows st userId) - set (mongo_following st userId)
      - {userId} - {''__proto__''})"
    using keys_all_counts [OF assms] by simp
  finally show ?thesis .
qed

text \<open>
  The fallback where it aggregates as specified. With the graph store not connected,
  Mongo connected, a non-negative limit, and no edge pointing to an id that names a
  function of \<open>Object.prototype\<close>, the route answers the fallback's ranked pairs, each
  joined with its profile. With \<open>F\<close> the caller's followed set, \<open>E\<close> the edges whose
  source is in \<open>F\<close>, and the candidates the targets of \<open>E\<close> outside \<open>F\<close> other than the
  caller and other than \<open>__proto__\<close>: the ranked ids are distinct candidates, each with
  the number of edges of \<open>E\<close> that point to it, in descending order of that number,
  \<open>limit\<close> of them (all when there are fewer), and no candidate left out has a larger
  count than one that is listed. The target \<open>__proto__\<close> is never listed.
\<close>

lemma fallback_aggregation_own_keys:
  assumes "\<not> neo4j_connected st" "mongo_connected st" "0 \<le> limit"
    and own: "\<forall>d\<in>set (follows st). f_followedId d \<notin> set inherited_function_keys"
  shows "(let F = set (mongo_following st userId);
              E = filter (\<lambda>d. f_followerId d \<in> F) (follows st);
              cnt = (\<lambda>t. length (filter (\<lambda>d. f_followedId d = t) E));
              cands = f_followedId ` set E - F - {userId} - {''__proto__''}
          in \<exists>ranked. mongo_ranked st userId limit = Some ranked
           \<and> suggestions st fl userId limit = Some (Inr (map (suggestion_of st) ranked))
           \<and> distinct (map fst ranked)
           \<and> fst ` set ranked \<subseteq> cands
           \<and> (\<forall>s\<in>set ranked. snd s = cnt (fst s))
           \<and> sorted_wrt (\<lambda>a b. snd b \<le> snd a) ranked
           \<and> length ranked = min (nat limit) (card cands)
           \<and> (\<forall>t\<in>cands - fst ` set ranked. \<forall>s\<in>set ranked. cnt t \<le> snd s))"
proof -
  let ?F = "set (mongo_following st userId)"
  let ?E = "filter (\<lambda>d. f_followerId d \<in> ?F) (follows st)"
  let ?cnt = "\<lambda>t. length (filter (\<lambda>d. f_followedId d = t) ?E)"
  let ?cands = "f_followedId ` set ?E - ?F - {userId} - {''__proto__''}"
  have E: "friends_follows st userId = ?E" by (simp add: friends_follows_def)
  have sg: "suggestions st fl userId limit = Some (Inr (map (suggestion_of st) ranked))"
    if "mongo_ranked st userId limit = Some ranked" "''__proto__'' \<notin> fst ` set ranked" for ranked
    using assms(1,2) that by (simp add: suggestions_def)
  have "\<exists>ranked. mongo_ranked st userId limit = Some ranked
           \<and> suggestions st fl userId limit = Some (Inr (map (suggestion_of st) ranked))
           \<and> distinct (map fst ranked) \<and> fst ` set ranked \<subseteq> ?cands
           \<and> (\<forall>s\<in>set ranked. snd s = ?cnt (fst s))
           \<and> sorted_wrt (\<lambda>a b. snd b \<le> snd a) ranked
           \<and> length ranked = min (nat limit) (card ?cands)
           \<and> (\<forall>t\<in>?cands - fst ` set ranked. \<forall>s\<in>set ranked. ?cnt t \<le> snd s)"
  proof (cases "mongo_following st userId = []")
    case True
    then have r: "mongo_ranked st userId limit = Some []" by (rule mongo_ranked_none)
    from sg [OF r] have "suggestions st fl userId limit = Some (Inr (map (suggestion_of st) []))"
      by simp
    with r True show ?thesis by simp
  next
    case False
    from all_counts_defined [OF own] obtain all where all: "all_counts st userId = Some all"
      by blast
    let ?ranked = "take (nat limit) all"
    have r: "mongo_ranked st userId limit = Some ?ranked"
      using mongo_ranked_take [OF assms(3) False] all by simp
    have 1: "distinct (map fst ?ranked)"
      unfolding take_map [symmetric] by (intro distinct_take distinct_all_counts [OF all])
    have sub: "set ?ranked \<subseteq> set all"
      by (rule set_take_subset)
    have 2: "fst ` set ?ranked \<subseteq> ?cands"
      using sub keys_all_counts [OF all] unfolding E by blast
    then have "''__proto__'' \<notin> fst ` set ?ranked" by blast
    with r have 0: "suggestions st fl userId limit = Some (Inr (map (suggestion_of st) ?ranked))"
      by (rule sg)
    have 3: "\<forall>s\<in>set ?ranked. snd s = ?cnt (fst s)"
      using sub value_all_counts [OF all] unfolding E by blast
    have so: "sorted_wrt (\<lambda>a b. snd b \<le> snd a) all"
      using all by (auto simp: all_counts_def sorted_sort_by_count)
    then have 4: "sorted_wrt (\<lambda>a b. snd b \<le> snd a) ?ranked"
      by (rule sorted_wrt_take)
    have 5: "length ?ranked = min (nat limit) (card ?cands)"
      using length_all_counts [OF all] unfolding E by simp
    have 6: "\<forall>t\<in>?cands - fst ` set ?ranked. \<forall>s\<in>set ?ranked. ?cnt t \<le> snd s"
    proof (intro ballI)
      fix t s
      assume t: "t \<in> ?cands - fst ` set ?ranked" and s: "s \<in> set ?ranked"
      from t have "t \<in> fst ` set all"
        using keys_all_counts [OF all] unfolding E by blast
      then obtain c where c: "(t, c) \<in> set all" by auto
      have notin: "(t, c) \<notin> set (take (nat limit) all)"
        using t by force
      have "snd (t, c) \<le> snd s"
        using so s c notin by (rule top_of_sorted)
      moreover have "snd (t, c) = ?cnt (fst (t, c))"
        using value_all_counts [OF all c] unfolding E .
      ultimately show "?cnt t \<le> snd s" by simp
    qed
    from r 0 1 2 3 4 5 6 show ?thesis by blast
  qed
  then show ?thesis
    unfolding Let_def .
qed

lemma dv7: "decimal_value ''7'' = 7"
  by (simp add: decimal_value_def)

lemma is_array_index_7: "is_array_index ''7''"
  by (simp add: is_array_index_def is_digit_def dv7)

lemma not_index_u: "\<not> is_array_index (CHR ''u'' # s)"
  by (simp add: is_array_index_def is_digit_def)

lemma fs_following: "mongo_following friends_state ''u1'' = [''u2'', ''u3'']"
  by (simp add: mongo_following_def friends_state_def initial_state_def)

lemma fs_friends: "map f_followedId (friends_follows friends_state ''u1'') = [''u5'', ''u4'', ''u1'', ''u4'', ''u2'', ''7'']"
  by (simp add: friends_follows_def fs_following) (simp add: friends_state_def initial_state_def)

lemma fs_counts: "count_suggestions ''u1'' [''u2'', ''u3''] [] (friends_follows friends_state ''u1'')
   = Some [(''u5'', Suc 0), (''u4'', 2), (''7'', Suc 0)]"
  by (simp add: friends_follows_def fs_following)
     (simp add: friends_state_def initial_state_def object_bump_def inherited_function_keys_def)

lemma fs_entries: "object_entries [(''u5'', Suc 0), (''u4'', 2), (''7'', Suc 0)] = [(''7'', Suc 0), (''u5'', Suc 0), (''u4'', 2)]"
  by (simp add: object_entries_def is_array_index_7 not_index_u)

lemma fs_sorted: "sort_by_count_desc [(''7'', Suc 0), (''u5'', Suc 0), (''u4'', 2)] = [(''u4'', 2), (''7'', Suc 0), (''u5'', Suc 0)]"
  by (simp add: sort_by_count_desc_def)

lemma fs_ranked: "mongo_ranked friends_state ''u1'' 2 = Some [(''u4'', 2), (''7'', 1)]"
  by (simp add: mongo_ranked_def fs_following fs_counts fs_entries fs_sorted js_slice0_def)

lemma fs_profiles: "profile_of friends_state ''u4'' =
    Some \<lparr>p_id = ''u4'', p_username = ''dee'', p_avatar = None, p_bio = None, p_fullname = ''dee''\<rparr>
  \<and> profile_of friends_state ''7'' = None"
  by (simp add: profile_of_def friends_state_def initial_state_def or_unknown_def)

text \<open>
  A run of the fallback: for \<open>u1\<close> the candidates are \<open>u4\<close> (2 edges), \<open>7\<close> and \<open>u5\<close>
  (1 edge each); \<open>u1\<close> itself and the followed \<open>u2\<close> are excluded. With limit 2 the
  answer is \<open>u4\<close> and then \<open>7\<close> (an array-index key is enumerated first).
\<close>

lemma fallback_aggregation_run:
  "\<not> neo4j_connected friends_state \<and> mongo_connected friends_state
   \<and> mongo_following friends_state ''u1'' = [''u2'', ''u3'']
   \<and> mongo_ranked friends_state ''u1'' 2 = Some [(''u4'', 2), (''7'', 1)]
   \<and> suggestions friends_state no_faults ''u1'' 2 =
       Some (Inr [\<lparr>s_profile = Some \<lparr>p_id = ''u4'', p_username = ''dee'', p_avatar = None,
                                   p_bio = None, p_fullname = ''dee''\<rparr>,
              s_mutualConnections = 2\<rparr>,
            \<lparr>s_profile = None, s_mutualConnections = 1\<rparr>])"
proof -
  have h1: "\<not> neo4j_connected friends_state"
    by (simp add: friends_state_def initial_state_def)
  have h2: "mongo_connected friends_state"
    by (simp add: friends_state_def initial_state_def)
  have "suggestions friends_state no_faults ''u1'' 2 =
          Some (Inr (map (suggestion_of friends_state) [(''u4'', 2), (''7'', 1)]))"
    using h1 h2 by (simp add: suggestions_def fs_ranked)
  then show ?thesis
    using h1 h2 by (simp add: fs_ranked fs_following fs_profiles suggestion_of_def)
qed

lemma ps_follows: "map edge_of (follows proto_state) =
    [(''u1'', ''u2''), (''u2'', ''__proto__''), (''u2'', ''x'')]"
  by (simp add: proto_state_def eval_defs follow_eval)

lemma ps_connected: "\<not> neo4j_connected proto_state \<and> mongo_connected proto_state"
  by (simp add: proto_state_def eval_defs follow_eval)

lemma ps_following: "mongo_following proto_state ''u1'' = [''u2'']"
  by (simp add: proto_state_def eval_defs follow_eval)

lemma ps_friends: "map f_followedId (friends_follows proto_state ''u1'') = [''__proto__'', ''x'']"
  by (simp add: friends_follows_def ps_following) (simp add: proto_state_def eval_defs follow_eval)

lemma ps_counts: "count_suggestions ''u1'' [''u2''] [] (friends_follows proto_state ''u1'')
   = Some [(''x'', Suc 0)]"
  by (simp add: friends_follows_def ps_following)
     (simp add: proto_state_def eval_defs follow_eval object_bump_def inherited_function_keys_def)

lemma ps_ranked: "mongo_ranked proto_state ''u1'' 10 = Some [(''x'', 1)]"
  by (simp add: mongo_ranked_def ps_following ps_counts object_entries_def is_array_index_def
        is_digit_def sort_by_count_desc_def js_slice0_def)

lemma ps_spec: "suggest_spec proto_state ''u1'' 10 = [(''__proto__'', 1), (''x'', 1)]"
  by (simp add: suggest_spec_def ps_following) (simp add: proto_state_def eval_defs follow_eval)

text \<open>
  Claim C8 at a failing input. With the graph store not connected, \<open>u1\<close> follows \<open>u2\<close>,
  and \<open>u2\<close> follows the users \<open>__proto__\<close> and \<open>x\<close>. The aggregation of the claim counts
  one edge for each of the two targets, neither of which is the caller or followed by
  the caller, and so ranks both. The route answers one suggestion only, for \<open>x\<close>: the
  counter object never gets a property \<open>__proto__\<close>, so that target is lost.
\<close>

theorem suggest_drops_proto_target:
  "\<not> neo4j_connected proto_state \<and> mongo_connected proto_state
   \<and> map edge_of (follows proto_state) =
       [(''u1'', ''u2''), (''u2'', ''__proto__''), (''u2'', ''x'')]
   \<and> suggest_spec proto_state ''u1'' 10 = [(''__proto__'', 1), (''x'', 1)]
   \<and> mongo_ranked proto_state ''u1'' 10 = Some [(''x'', 1)]
   \<and> suggestions proto_state no_faults ''u1'' 10 =
       Some (Inr [\<lparr>s_profile = None, s_mutualConnections = 1\<rparr>])"
proof -
  have "users proto_state = []"
    by (simp add: proto_state_def eval_defs follow_eval)
  then have "suggestions proto_state no_faults ''u1'' 10 =
       Some (Inr [\<lparr>s_profile = None, s_mutualConnections = 1\<rparr>])"
    using ps_connected by (simp add: suggestions_def ps_ranked suggestion_of_def profile_of_def)
  with ps_connected ps_follows ps_spec ps_ranked show ?thesis by simp
qed

end
